theory Spec2Isabelle
  imports Main
begin

section \<open>Data model\<close>

text \<open>
  The schema-diff engine and the migration executor (\<^verbatim>\<open>getSchemaDiff\<close>,
  \<^verbatim>\<open>executeSchemaMigration\<close>, \<^verbatim>\<open>schemaToSchemaDescription\<close>,
  \<^verbatim>\<open>databaseDescriptionToSchemaDescription\<close> and the type-mapping helpers) are embedded
  as HOL functions. Every \<^verbatim>\<open>throw\<close> of the source and every rejected promise is a value
  \<open>Inl e\<close> of a sum type.
\<close>

datatype Direction = Asc | Desc

subsection \<open>JavaScript maps\<close>

text \<open>
  A \<^verbatim>\<open>Map\<close> with string keys is the list of its entries in insertion order:
  \<^verbatim>\<open>set\<close> on a key that is present replaces the value where it stands, on a new key
  it appends, whatever the key. \<^verbatim>\<open>new Map(pairs)\<close> sets the pairs one after the
  other.
\<close>

type_synonym 'v js_map = "(string \<times> 'v) list"

fun map_set :: "'v js_map \<Rightarrow> string \<Rightarrow> 'v \<Rightarrow> 'v js_map" where
  "map_set [] k v = [(k, v)]"
| "map_set ((k', v') # rest) k v =
     (if k' = k then (k, v) # rest else (k', v') # map_set rest k v)"

definition map_values :: "'v js_map \<Rightarrow> 'v list" where
  "map_values m = map snd m"

definition new_Map :: "(string \<times> 'v) list \<Rightarrow> 'v js_map" where
  "new_Map pairs = foldl (\<lambda>m (k, v). map_set m k v) [] pairs"

subsection \<open>JavaScript objects\<close>

text \<open>
  A plain object with string keys (\<^verbatim>\<open>{ [handle: string]: 'asc' | 'desc' }\<close>) is the
  list of its own properties in the order in which \<^verbatim>\<open>Object.keys\<close> enumerates them:
  the keys that are array indices first, in ascending numeric order, then the other keys
  in the order of their creation. An array index is the canonical decimal numeral of an
  integer below 4294967295; two canonical numerals compare as their numbers do, by their
  lengths and then digit by digit. The keys of an object are distinct, so a loop over
  \<^verbatim>\<open>Object.keys(o)\<close> that reads \<^verbatim>\<open>o[name]\<close> is a loop over the pairs.

  The assignment \<^verbatim>\<open>o[k] = v\<close> to an object made by the literal \<^verbatim>\<open>{}\<close>: an own
  property \<open>k\<close> is overwritten where it stands. Otherwise the key
  \<^verbatim>\<open>__proto__\<close> reaches the setter that the object inherits, which ignores a value
  that is a string, and no property is made; an array index is put at its numeric place;
  any other key is appended.
\<close>

type_synonym 'v obj = "(string \<times> 'v) list"

definition obj_keys :: "'v obj \<Rightarrow> string list" where
  "obj_keys ob = map fst ob"

definition isDigit :: "char \<Rightarrow> bool" where
  "isDigit c = (c \<in> set ''0123456789'')"

definition digitValue :: "char \<Rightarrow> nat" where
  "digitValue c = of_char c - 48"

fun digitsLess :: "string \<Rightarrow> string \<Rightarrow> bool" where
  "digitsLess (x # xs) (y # ys) =
     (digitValue x < digitValue y \<or> (digitValue x = digitValue y \<and> digitsLess xs ys))"
| "digitsLess _ _ = False"

definition numeralLess :: "string \<Rightarrow> string \<Rightarrow> bool" where
  "numeralLess a b = (length a < length b \<or> (length a = length b \<and> digitsLess a b))"

definition isArrayIndex :: "string \<Rightarrow> bool" where
  "isArrayIndex k =
     (case k of
        [] \<Rightarrow> False
      | c # rest \<Rightarrow>
          list_all isDigit k \<and> (c \<noteq> CHR ''0'' \<or> rest = []) \<and> numeralLess k ''4294967295'')"

fun insertIndexed :: "'v obj \<Rightarrow> string \<Rightarrow> 'v \<Rightarrow> 'v obj" where
  "insertIndexed [] k v = [(k, v)]"
| "insertIndexed ((k', v') # rest) k v =
     (if isArrayIndex k' \<and> numeralLess k' k
      then (k', v') # insertIndexed rest k v
      else (k, v) # (k', v') # rest)"

definition obj_assign :: "'v obj \<Rightarrow> string \<Rightarrow> 'v \<Rightarrow> 'v obj" where
  "obj_assign ob k v =
     (if k \<in> set (obj_keys ob) then map_set ob k v
      else if k = ''__proto__'' then ob
      else if isArrayIndex k then insertIndexed ob k v
      else ob @ [(k, v)])"

text \<open>The declared (logical) schema, as \<^verbatim>\<open>parseSchema\<close> supplies it.\<close>

record Field =
  f_handle :: string
  f_type :: string
  f_localized :: bool

record SchemaIndex =
  si_handle :: string
  si_type :: string
  si_fields :: "Direction obj"

record Schema =
  s_handle :: string
  s_fields :: "Field list"
  s_indexes :: "SchemaIndex list"

text \<open>The backend-neutral description of a collection (\<^verbatim>\<open>SchemaDescription\<close>).\<close>

record SchemaDescriptionColumn =
  col_handle :: string
  col_type :: string

record SchemaDescriptionIndex =
  idx_handle :: string
  idx_type :: string
  idx_columns :: "Direction obj"

record SchemaDescription =
  sd_handle :: string
  sd_columns :: "SchemaDescriptionColumn list"
  sd_indexes :: "SchemaDescriptionIndex list"

datatype SchemaDiff =
    AddCollection SchemaDescription
  | AddColumn SchemaDescription SchemaDescriptionColumn "string list"
  | DropColumn SchemaDescription SchemaDescriptionColumn
  | AlterColumn SchemaDescription SchemaDescriptionColumn string
  | AddIndex SchemaDescription SchemaDescriptionIndex
  | DropIndex SchemaDescription SchemaDescriptionIndex

text \<open>The \<^verbatim>\<open>collection\<close> member that every diff carries.\<close>

fun diff_collection :: "SchemaDiff \<Rightarrow> SchemaDescription" where
  "diff_collection (AddCollection c) = c"
| "diff_collection (AddColumn c _ _) = c"
| "diff_collection (DropColumn c _) = c"
| "diff_collection (AlterColumn c _ _) = c"
| "diff_collection (AddIndex c _) = c"
| "diff_collection (DropIndex c _) = c"

text \<open>
  Modelled from the spec: the enumerations \<^verbatim>\<open>ColumnType\<close>, \<^verbatim>\<open>IndexType\<close> and
  \<^verbatim>\<open>Compare\<close> of the query package, whose declarations are not among the sources. The
  members are those the sources and the specification name; \<open>OtherColumnType\<close> stands for
  the members of the closed enumeration that neither names. The compatibility flags are
  independently settable bits, so a flag word is the set of its flags and
  \<^verbatim>\<open>(flags & Compare.Castable) === 0\<close> is \<open>Castable \<notin> flags\<close>.
\<close>

datatype ColumnType =
    Boolean | Int8 | Int16 | Int32 | Int64 | UInt64 | Float32 | Float64
  | Text | Blob | Date | DateTime | OtherColumnType string

datatype IndexType = Primary | Unique | Index

datatype Compare = Equal | Castable | Comparable

text \<open>
  Modelled from the spec: the column, sort and index definitions of the query builder
  (\<^verbatim>\<open>q.column(name, type)\<close>, \<^verbatim>\<open>q.sort(name, direction)\<close>,
  \<^verbatim>\<open>q.index(name, type).columns(...)\<close>), with the members the sources read.
\<close>

record Column =
  c_name :: string
  c_type :: ColumnType

record SortableField =
  sf_name :: string
  sf_direction :: "Direction option"

record IndexDef =
  ix_name :: string
  ix_type :: IndexType
  ix_columns :: "SortableField list"

definition q_column :: "string \<Rightarrow> ColumnType \<Rightarrow> Column" where
  "q_column n t = \<lparr>c_name = n, c_type = t\<rparr>"

definition q_sort :: "string \<Rightarrow> Direction \<Rightarrow> SortableField" where
  "q_sort n d = \<lparr>sf_name = n, sf_direction = Some d\<rparr>"

definition q_index :: "string \<Rightarrow> IndexType \<Rightarrow> SortableField list \<Rightarrow> IndexDef" where
  "q_index n t cols = \<lparr>ix_name = n, ix_type = t, ix_columns = cols\<rparr>"

text \<open>The result of \<^verbatim>\<open>q.describeCollection\<close>.\<close>

record DescribeCollectionQueryResult =
  d_collection :: string
  d_columns :: "Column list"
  d_indexes :: "IndexDef list"

text \<open>
  The errors thrown: \<^verbatim>\<open>Unknown field type\<close> of \<^verbatim>\<open>mapStringToColumnType\<close> and of
  \<^verbatim>\<open>mapColumnTypeToFieldType\<close>, \<^verbatim>\<open>Unknown index type\<close>,
  \<^verbatim>\<open>User aborted migration.\<close>, the two requests for a TTY terminal (new additions,
  new deletions), the \<^verbatim>\<open>TypeError\<close> of a method call on a map entry that is missing,
  and a rejected \<^verbatim>\<open>database.execute\<close>.
\<close>

datatype error =
    UnknownFieldType string
  | UnknownIndexType string
  | UnknownColumnType ColumnType
  | UserAborted
  | AdditionsNeedTTY
  | DeletionsNeedTTY
  | MissingAlterQuery
  | BackendError string

text \<open>
  The part of \<^verbatim>\<open>PluginInitContext\<close> that is read: the locale codes
  (\<^verbatim>\<open>Object.keys(context.locales)\<close>) and the database driver. A rejected
  \<^verbatim>\<open>database.execute\<close> is an \<open>Inl\<close>.
\<close>

record Database =
  collectionExists :: "string \<Rightarrow> error + bool"
  describeCollection :: "string \<Rightarrow> error + DescribeCollectionQueryResult"
  compareTypes :: "ColumnType \<Rightarrow> ColumnType \<Rightarrow> Compare set"

record PluginInitContext =
  locales :: "string list"
  database :: Database

section \<open>Type mapping\<close>

definition mapStringToColumnType :: "string \<Rightarrow> error + ColumnType" where
  "mapStringToColumnType t =
     (if t = ''int'' then Inr Int64
      else if t = ''float'' then Inr Float64
      else if t = ''text'' \<or> t = ''password'' \<or> t = ''slug'' \<or> t = ''html'' then Inr Text
      else if t = ''date'' then Inr DateTime
      else if t = ''datetime'' then Inr DateTime
      else Inl (UnknownFieldType t))"

definition mapStringToIndexType :: "string \<Rightarrow> error + IndexType" where
  "mapStringToIndexType t =
     (if t = ''primary'' then Inr Primary
      else if t = ''unique'' then Inr Unique
      else if t = ''index'' then Inr Index
      else Inl (UnknownIndexType t))"

fun mapColumnTypeToFieldType :: "ColumnType \<Rightarrow> error + string" where
  "mapColumnTypeToFieldType Int8 = Inr ''int''"
| "mapColumnTypeToFieldType Int16 = Inr ''int''"
| "mapColumnTypeToFieldType Int32 = Inr ''int''"
| "mapColumnTypeToFieldType Int64 = Inr ''int''"
| "mapColumnTypeToFieldType Float32 = Inr ''float''"
| "mapColumnTypeToFieldType Float64 = Inr ''float''"
| "mapColumnTypeToFieldType Text = Inr ''text''"
| "mapColumnTypeToFieldType Date = Inr ''date''"
| "mapColumnTypeToFieldType DateTime = Inr ''datetime''"
| "mapColumnTypeToFieldType Blob = Inr ''blob''"
| "mapColumnTypeToFieldType t = Inl (UnknownColumnType t)"

fun mapIndexTypeToString :: "IndexType \<Rightarrow> string" where
  "mapIndexTypeToString Primary = ''primary''"
| "mapIndexTypeToString Unique = ''unique''"
| "mapIndexTypeToString Index = ''index''"

section \<open>Localized handles\<close>

text \<open>
  \<^verbatim>\<open>/^([a-zA-Z0-9_-]+)__([a-z]{2}(-[a-zA-Z]{2})?)$/i\<close>. The expression is anchored at
  both ends and its second group has one of two fixed shapes, two letters or two letters,
  a hyphen and two letters, so a handle matches when it ends in \<^verbatim>\<open>__\<close> followed by
  one of the two shapes and what precedes is a nonempty run of handle characters. The two
  shapes exclude each other (the fourth character from the end is an underscore in one
  and a letter in the other), so backtracking finds at most one split. The flag
  \<^verbatim>\<open>i\<close> makes \<^verbatim>\<open>[a-z]\<close> accept both cases; without the flag \<^verbatim>\<open>u\<close> no
  character outside ASCII folds to an ASCII letter. The result is the pair of the groups
  1 and 2.
\<close>

definition isLetter :: "char \<Rightarrow> bool" where
  "isLetter c = (c \<in> set ''abcdefghijklmnopqrstuvwxyzABCDEFGHIJKLMNOPQRSTUVWXYZ'')"

definition isHandleChar :: "char \<Rightarrow> bool" where
  "isHandleChar c = (isLetter c \<or> c \<in> set ''0123456789_-'')"

fun isLocaleCode :: "string \<Rightarrow> bool" where
  "isLocaleCode [a, b] = (isLetter a \<and> isLetter b)"
| "isLocaleCode [a, b, h, c, d] =
     (isLetter a \<and> isLetter b \<and> h = CHR ''-'' \<and> isLetter c \<and> isLetter d)"
| "isLocaleCode _ = False"

definition matchSuffix :: "nat \<Rightarrow> string \<Rightarrow> (string \<times> string) option" where
  "matchSuffix n h =
     (let base = take (length h - (n + 2)) h;
          rest = drop (length h - (n + 2)) h
      in if n + 2 < length h \<and> list_all isHandleChar base
            \<and> take 2 rest = ''__'' \<and> isLocaleCode (drop 2 rest)
         then Some (base, drop 2 rest) else None)"

definition matchLocalizedHandle :: "string \<Rightarrow> (string \<times> string) option" where
  "matchLocalizedHandle h =
     (case matchSuffix 2 h of Some m \<Rightarrow> Some m | None \<Rightarrow> matchSuffix 5 h)"

section \<open>Expansion of a declared schema\<close>

text \<open>
  \<^verbatim>\<open>schemaToSchemaDescription\<close>. Both \<^verbatim>\<open>reduce\<close> calls push onto their accumulator;
  the column set of an expanded index is an object filled key by key.
\<close>

definition findField :: "Schema \<Rightarrow> string \<Rightarrow> Field option" where
  "findField schema name = find (\<lambda>f. f_handle f = name) (s_fields schema)"

definition fieldIsLocalized :: "Schema \<Rightarrow> string \<Rightarrow> bool" where
  "fieldIsLocalized schema name =
     (case findField schema name of None \<Rightarrow> False | Some f \<Rightarrow> f_localized f)"

definition columnsReducer ::
  "string list \<Rightarrow> SchemaDescriptionColumn list \<Rightarrow> Field \<Rightarrow> SchemaDescriptionColumn list" where
  "columnsReducer locs columns field =
     (if f_type field = ''relation'' then columns
      else if f_localized field then
        foldl (\<lambda>cols code.
                 cols @ [\<lparr>col_handle = f_handle field @ ''__'' @ code, col_type = f_type field\<rparr>])
              columns locs
      else columns @ [\<lparr>col_handle = f_handle field, col_type = f_type field\<rparr>])"

definition indexesReducer ::
  "string list \<Rightarrow> Schema \<Rightarrow> SchemaDescriptionIndex list \<Rightarrow> SchemaIndex
     \<Rightarrow> SchemaDescriptionIndex list" where
  "indexesReducer locs schema indexes index =
     (let localized =
            foldl (\<lambda>loc name. loc \<or> fieldIsLocalized schema name) False
                  (obj_keys (si_fields index))
      in if localized then
           foldl (\<lambda>idxs code.
                    idxs @ [\<lparr>idx_handle = si_handle index @ ''__'' @ code,
                             idx_type = si_type index,
                             idx_columns =
                               foldl (\<lambda>fields (name, dir).
                                        if fieldIsLocalized schema name
                                        then obj_assign fields (name @ ''__'' @ code) dir
                                        else obj_assign fields name dir)
                                     [] (si_fields index)\<rparr>])
                 indexes locs
         else indexes @ [\<lparr>idx_handle = si_handle index, idx_type = si_type index,
                           idx_columns = si_fields index\<rparr>])"

definition schemaToSchemaDescription :: "PluginInitContext \<Rightarrow> Schema \<Rightarrow> SchemaDescription" where
  "schemaToSchemaDescription context schema =
     \<lparr>sd_handle = s_handle schema,
      sd_columns = foldl (columnsReducer (locales context)) [] (s_fields schema),
      sd_indexes = foldl (indexesReducer (locales context) schema) [] (s_indexes schema)\<rparr>"

section \<open>Description of a live collection\<close>

text \<open>
  A loop whose body may throw: the first error ends it (\<^verbatim>\<open>forEach\<close>, \<^verbatim>\<open>reduce\<close>
  and \<^verbatim>\<open>for\<close> alike).
\<close>

fun reduceE :: "('s \<Rightarrow> 'a \<Rightarrow> error + 's) \<Rightarrow> 's \<Rightarrow> 'a list \<Rightarrow> error + 's" where
  "reduceE f s [] = Inr s"
| "reduceE f s (x # xs) = (case f s x of Inl e \<Rightarrow> Inl e | Inr s' \<Rightarrow> reduceE f s' xs)"

fun mapE :: "('a \<Rightarrow> error + 'b) \<Rightarrow> 'a list \<Rightarrow> error + 'b list" where
  "mapE f [] = Inr []"
| "mapE f (x # xs) =
     (case f x of Inl e \<Rightarrow> Inl e
      | Inr y \<Rightarrow> (case mapE f xs of Inl e \<Rightarrow> Inl e | Inr ys \<Rightarrow> Inr (y # ys)))"

text \<open>
  \<^verbatim>\<open>databaseDescriptionToSchemaDescription\<close>. The index member \<^verbatim>\<open>type\<close> receives the
  \<^verbatim>\<open>IndexType\<close> member itself, not \<^verbatim>\<open>mapIndexTypeToString\<close> of it; the run-time
  strings of the enumeration are not among the sources and are the parameter \<open>ev\<close>.
\<close>

definition dbColumnsReducer ::
  "SchemaDescriptionColumn list \<Rightarrow> Column \<Rightarrow> error + SchemaDescriptionColumn list" where
  "dbColumnsReducer columns column =
     (case mapColumnTypeToFieldType (c_type column) of
        Inl e \<Rightarrow> Inl e
      | Inr t \<Rightarrow> Inr (columns @ [\<lparr>col_handle = c_name column, col_type = t\<rparr>]))"

definition directionOrAsc :: "Direction option \<Rightarrow> Direction" where
  "directionOrAsc d = (case d of None \<Rightarrow> Asc | Some x \<Rightarrow> x)"

definition dbIndexColumns :: "SortableField list \<Rightarrow> Direction obj" where
  "dbIndexColumns columns =
     (let localized =
            foldl (\<lambda>loc column. loc \<or> matchLocalizedHandle (sf_name column) \<noteq> None) False columns
      in foldl (\<lambda>cols field.
                  if localized then
                    (case matchLocalizedHandle (sf_name field) of
                       Some m \<Rightarrow> obj_assign cols (fst m) (directionOrAsc (sf_direction field))
                     | None \<Rightarrow> obj_assign cols (sf_name field) (directionOrAsc (sf_direction field)))
                  else obj_assign cols (sf_name field) (directionOrAsc (sf_direction field)))
               [] columns)"

definition dbIndexesReducer ::
  "(IndexType \<Rightarrow> string) \<Rightarrow> SchemaDescriptionIndex list \<Rightarrow> IndexDef
     \<Rightarrow> SchemaDescriptionIndex list" where
  "dbIndexesReducer ev indexes index =
     indexes @ [\<lparr>idx_handle = ix_name index, idx_type = ev (ix_type index),
                 idx_columns = dbIndexColumns (ix_columns index)\<rparr>]"

definition databaseDescriptionToSchemaDescription ::
  "(IndexType \<Rightarrow> string) \<Rightarrow> PluginInitContext \<Rightarrow> DescribeCollectionQueryResult
     \<Rightarrow> error + SchemaDescription" where
  "databaseDescriptionToSchemaDescription ev context description =
     (case reduceE dbColumnsReducer [] (d_columns description) of
        Inl e \<Rightarrow> Inl e
      | Inr columns \<Rightarrow>
          Inr \<lparr>sd_handle = d_collection description,
               sd_columns = columns,
               sd_indexes = foldl (dbIndexesReducer ev) [] (d_indexes description)\<rparr>)"

section \<open>The diff engine\<close>

text \<open>
  \<^verbatim>\<open>getSchemaDiff\<close>. The four \<^verbatim>\<open>forEach\<close> loops of an existing collection are four
  folds over the state they mutate: the muted handles and the diff list.
\<close>

definition liveColumnStep ::
  "Database \<Rightarrow> SchemaDescription \<Rightarrow> string list \<times> SchemaDiff list \<Rightarrow> SchemaDescriptionColumn
     \<Rightarrow> error + string list \<times> SchemaDiff list" where
  "liveColumnStep db schemaDesc st dbColumn =
     (case find (\<lambda>column. col_handle column = col_handle dbColumn) (sd_columns schemaDesc) of
        None \<Rightarrow> Inr (fst st, snd st @ [DropColumn schemaDesc dbColumn])
      | Some column \<Rightarrow>
          (case mapStringToColumnType (col_type column) of
             Inl e \<Rightarrow> Inl e
           | Inr declared \<Rightarrow>
               (case mapStringToColumnType (col_type dbColumn) of
                  Inl e \<Rightarrow> Inl e
                | Inr live \<Rightarrow>
                    if Castable \<notin> compareTypes db declared live
                    then Inr (fst st @ [col_handle column],
                              snd st @ [AlterColumn schemaDesc dbColumn (col_type column)])
                    else Inr (fst st @ [col_handle column], snd st))))"

definition copyCandidates :: "SchemaDescription \<Rightarrow> string \<Rightarrow> string list" where
  "copyCandidates dbSchemaDesc handle =
     (case matchLocalizedHandle handle of
        Some m \<Rightarrow>
          filter (\<lambda>h. case matchLocalizedHandle h of None \<Rightarrow> False | Some m2 \<Rightarrow> fst m2 = fst m)
                 (map col_handle (sd_columns dbSchemaDesc))
      | None \<Rightarrow> map col_handle (sd_columns dbSchemaDesc))"

definition declaredColumnStep ::
  "SchemaDescription \<Rightarrow> SchemaDescription \<Rightarrow> string list \<Rightarrow> SchemaDiff list
     \<Rightarrow> SchemaDescriptionColumn \<Rightarrow> SchemaDiff list" where
  "declaredColumnStep schemaDesc dbSchemaDesc mutedFields diffs column =
     (if col_handle column \<notin> set mutedFields
      then diffs @ [AddColumn schemaDesc column (copyCandidates dbSchemaDesc (col_handle column))]
      else diffs)"

definition liveIndexStep ::
  "SchemaDescription \<Rightarrow> string list \<times> SchemaDiff list \<Rightarrow> SchemaDescriptionIndex
     \<Rightarrow> string list \<times> SchemaDiff list" where
  "liveIndexStep schemaDesc st dbIndex =
     (case find (\<lambda>index. idx_handle index = idx_handle dbIndex) (sd_indexes schemaDesc) of
        None \<Rightarrow> (fst st @ [idx_handle dbIndex], snd st @ [DropIndex schemaDesc dbIndex])
      | Some index \<Rightarrow> (fst st @ [idx_handle dbIndex], snd st))"

definition declaredIndexStep ::
  "SchemaDescription \<Rightarrow> string list \<Rightarrow> SchemaDiff list \<Rightarrow> SchemaDescriptionIndex
     \<Rightarrow> SchemaDiff list" where
  "declaredIndexStep schemaDesc mutedIndexes diffs index =
     (if idx_handle index \<notin> set mutedIndexes
      then diffs @ [AddIndex schemaDesc index]
      else diffs)"

text \<open>The body of the loop over the declared schemas for a collection that exists.\<close>

definition diffExisting ::
  "Database \<Rightarrow> SchemaDescription \<Rightarrow> SchemaDescription \<Rightarrow> SchemaDiff list
     \<Rightarrow> error + SchemaDiff list" where
  "diffExisting db schemaDesc dbSchemaDesc diffs =
     (case reduceE (liveColumnStep db schemaDesc) ([], diffs) (sd_columns dbSchemaDesc) of
        Inl e \<Rightarrow> Inl e
      | Inr st1 \<Rightarrow>
          (let diffs2 = foldl (declaredColumnStep schemaDesc dbSchemaDesc (fst st1)) (snd st1)
                              (sd_columns schemaDesc);
               st3 = foldl (liveIndexStep schemaDesc) ([], diffs2) (sd_indexes dbSchemaDesc)
           in Inr (foldl (declaredIndexStep schemaDesc (fst st3)) (snd st3)
                         (sd_indexes schemaDesc))))"

definition diffSchema ::
  "(IndexType \<Rightarrow> string) \<Rightarrow> PluginInitContext \<Rightarrow> SchemaDiff list \<Rightarrow> Schema
     \<Rightarrow> error + SchemaDiff list" where
  "diffSchema ev context diffs schema =
     (let schemaDesc = schemaToSchemaDescription context schema
      in case collectionExists (database context) (s_handle schema) of
           Inl e \<Rightarrow> Inl e
         | Inr exists \<Rightarrow>
             if \<not> exists then Inr (diffs @ [AddCollection schemaDesc])
             else (case describeCollection (database context) (s_handle schema) of
                     Inl e \<Rightarrow> Inl e
                   | Inr desc \<Rightarrow>
                       (case databaseDescriptionToSchemaDescription ev context desc of
                          Inl e \<Rightarrow> Inl e
                        | Inr dbSchemaDesc \<Rightarrow>
                            diffExisting (database context) schemaDesc dbSchemaDesc diffs)))"

definition getSchemaDiff ::
  "(IndexType \<Rightarrow> string) \<Rightarrow> PluginInitContext \<Rightarrow> Schema list \<Rightarrow> error + SchemaDiff list" where
  "getSchemaDiff ev context schemas = reduceE (diffSchema ev context) [] schemas"

section \<open>The migration executor\<close>

text \<open>
  Modelled from the spec: the queries of the builder \<^verbatim>\<open>q\<close>, whose classes are not among
  the sources. An \<^verbatim>\<open>AlterCollection\<close> carries an ordered list of sub-operations, and
  each builder call returns the query with one more sub-operation at the end.
\<close>

datatype Change =
    ChangeAddColumn Column "string option"
  | ChangeAlterColumn string Column
  | ChangeDropColumn string
  | ChangeAddIndex IndexDef
  | ChangeDropIndex string

record CreateCollectionQuery =
  cq_collection :: string
  cq_columns :: "Column list"
  cq_indexes :: "IndexDef list"

record AlterCollectionQuery =
  aq_collection :: string
  aq_changes :: "Change list"

datatype Query = CreateCollection CreateCollectionQuery | AlterCollection AlterCollectionQuery

definition q_alterCollection :: "string \<Rightarrow> AlterCollectionQuery" where
  "q_alterCollection h = \<lparr>aq_collection = h, aq_changes = []\<rparr>"

definition addChange :: "Change \<Rightarrow> AlterCollectionQuery \<Rightarrow> AlterCollectionQuery" where
  "addChange c a = a\<lparr>aq_changes := aq_changes a @ [c]\<rparr>"

text \<open>
  Modelled from the spec: the interactive-choice collaborator \<^verbatim>\<open>promptSelection\<close>, a
  blocking decision function: given the streams, the prompts already answered in this run,
  the prompt string and the choices, it returns the chosen key, or \<open>None\<close> when its
  promise is rejected.
\<close>

datatype ReadStream = Stdin
datatype WriteStream = Stdout

type_synonym Prompt = "string \<times> string js_map"

type_synonym Collaborator =
  "ReadStream \<Rightarrow> WriteStream \<Rightarrow> Prompt list \<Rightarrow> string \<Rightarrow> string js_map \<Rightarrow> string option"

record MigrationState =
  createCollections :: "CreateCollectionQuery list"
  alterCollections :: "AlterCollectionQuery js_map"
  asked :: "Prompt list"

definition muteNewColumn :: "string list" where
  "muteNewColumn = []"

text \<open>
  \<^verbatim>\<open>if (alterCollections.has(h) === false) alterCollections.set(h, q.alterCollection(h))\<close>
  and \<^verbatim>\<open>alterCollections.set(h, alterCollections.get(h)!.op(...))\<close>.
\<close>

definition ensureAlter :: "AlterCollectionQuery js_map \<Rightarrow> string \<Rightarrow> AlterCollectionQuery js_map" where
  "ensureAlter m h = (if map_of m h = None then map_set m h (q_alterCollection h) else m)"

definition updateAlter ::
  "AlterCollectionQuery js_map \<Rightarrow> string \<Rightarrow> Change \<Rightarrow> error + AlterCollectionQuery js_map" where
  "updateAlter m h c =
     (case map_of m h of
        None \<Rightarrow> Inl MissingAlterQuery
      | Some a \<Rightarrow> Inr (map_set m h (addChange c a)))"

definition sortableFields :: "Direction obj \<Rightarrow> SortableField list" where
  "sortableFields columns = map (\<lambda>(name, dir). q_sort name dir) columns"

definition createCollectionOf :: "SchemaDescription \<Rightarrow> error + CreateCollectionQuery" where
  "createCollectionOf collection =
     (case mapE (\<lambda>column. case mapStringToColumnType (col_type column) of
                             Inl e \<Rightarrow> Inl e
                           | Inr t \<Rightarrow> Inr (q_column (col_handle column) t))
                (sd_columns collection) of
        Inl e \<Rightarrow> Inl e
      | Inr columns \<Rightarrow>
          (case mapE (\<lambda>index. case mapStringToIndexType (idx_type index) of
                                 Inl e \<Rightarrow> Inl e
                               | Inr t \<Rightarrow> Inr (q_index (idx_handle index) t
                                                       (sortableFields (idx_columns index))))
                     (sd_indexes collection) of
             Inl e \<Rightarrow> Inl e
           | Inr indexes \<Rightarrow>
               Inr \<lparr>cq_collection = sd_handle collection, cq_columns = columns,
                    cq_indexes = indexes\<rparr>))"

definition addColumnChoices :: "string \<Rightarrow> string \<Rightarrow> string list \<Rightarrow> (string \<times> string) list" where
  "addColumnChoices collectionHandle columnName copyColumn =
     [(''empty'', ''Leave `'' @ columnName @ ''` empty'')]
     @ map (\<lambda>copy. (copy, ''Copy content from `'' @ collectionHandle @ ''.'' @ copy @ ''`''))
           copyColumn
     @ [(''abort'', ''Abort migration'')]"

definition addColumnPrompt :: "string \<Rightarrow> string \<Rightarrow> string list \<Rightarrow> Prompt" where
  "addColumnPrompt collectionHandle columnName copyColumn =
     (''Schema has a new field `'' @ columnName @ ''`, how do we initialize it?'',
      new_Map (addColumnChoices collectionHandle columnName copyColumn))"

definition dropColumnPrompt :: "string \<Rightarrow> Prompt" where
  "dropColumnPrompt columnName =
     (''Field `'' @ columnName @ ''` is no longer defined in schema, confirm deletion?'',
      new_Map [(''drop'', ''Drop `'' @ columnName @ ''`''), (''abort'', ''Abort migration'')])"

text \<open>
  The decision for a new column: \<open>Inr None\<close> adds it empty, \<open>Inr (Some c)\<close> copies
  from \<open>c\<close>. With no copy candidate nothing is asked.
\<close>

definition addColumnChoice ::
  "Collaborator \<Rightarrow> ReadStream option \<Rightarrow> WriteStream option \<Rightarrow> Prompt list
     \<Rightarrow> string \<Rightarrow> string \<Rightarrow> string list \<Rightarrow> error + string option \<times> Prompt list" where
  "addColumnChoice promptSelection stdin stdout history collectionHandle columnName copyColumn =
     (if copyColumn \<noteq> [] then
        (case stdin of
           None \<Rightarrow> Inl AdditionsNeedTTY
         | Some i \<Rightarrow>
             (case stdout of
                None \<Rightarrow> Inl AdditionsNeedTTY
              | Some out \<Rightarrow>
                  (let p = addColumnPrompt collectionHandle columnName copyColumn
                   in case promptSelection i out history (fst p) (snd p) of
                        None \<Rightarrow> Inl UserAborted
                      | Some choice \<Rightarrow>
                          if choice = ''abort'' then Inl UserAborted
                          else if choice = ''empty'' then Inr (None, history @ [p])
                          else Inr (Some choice, history @ [p]))))
      else Inr (None, history))"

fun migrationStep ::
  "Collaborator \<Rightarrow> ReadStream option \<Rightarrow> WriteStream option \<Rightarrow> MigrationState \<Rightarrow> SchemaDiff
     \<Rightarrow> error + MigrationState" where
  "migrationStep promptSelection stdin stdout st (AddCollection collection) =
     (case createCollectionOf collection of
        Inl e \<Rightarrow> Inl e
      | Inr create \<Rightarrow> Inr (st\<lparr>createCollections := createCollections st @ [create]\<rparr>))"
| "migrationStep promptSelection stdin stdout st (AddColumn collection column copyColumn) =
     (let collectionHandle = sd_handle collection;
          columnName = collectionHandle @ ''.'' @ col_handle column
      in if columnName \<in> set muteNewColumn then Inr st
         else
           (let alters = ensureAlter (alterCollections st) collectionHandle
            in case addColumnChoice promptSelection stdin stdout (asked st)
                      collectionHandle columnName copyColumn of
                 Inl e \<Rightarrow> Inl e
               | Inr chosen \<Rightarrow>
                   (case map_of alters collectionHandle of
                      None \<Rightarrow> Inl MissingAlterQuery
                    | Some a \<Rightarrow>
                        (case mapStringToColumnType (col_type column) of
                           Inl e \<Rightarrow> Inl e
                         | Inr t \<Rightarrow>
                             Inr (st\<lparr>alterCollections :=
                                        map_set alters collectionHandle
                                          (addChange (ChangeAddColumn
                                             (q_column (col_handle column) t) (fst chosen)) a),
                                      asked := snd chosen\<rparr>)))))"
| "migrationStep promptSelection stdin stdout st (AlterColumn collection column type) =
     (let collectionHandle = sd_handle collection;
          alters = ensureAlter (alterCollections st) collectionHandle
      in case map_of alters collectionHandle of
           None \<Rightarrow> Inl MissingAlterQuery
         | Some a \<Rightarrow>
             (case mapStringToColumnType type of
                Inl e \<Rightarrow> Inl e
              | Inr t \<Rightarrow>
                  Inr (st\<lparr>alterCollections :=
                             map_set alters collectionHandle
                               (addChange (ChangeAlterColumn (col_handle column)
                                  (q_column (col_handle column) t)) a)\<rparr>)))"
| "migrationStep promptSelection stdin stdout st (DropColumn collection column) =
     (case stdin of
        None \<Rightarrow> Inl DeletionsNeedTTY
      | Some i \<Rightarrow>
          (case stdout of
             None \<Rightarrow> Inl DeletionsNeedTTY
           | Some out \<Rightarrow>
               (let collectionHandle = sd_handle collection;
                    columnName = collectionHandle @ ''.'' @ col_handle column;
                    p = dropColumnPrompt columnName
                in case promptSelection i out (asked st) (fst p) (snd p) of
                     None \<Rightarrow> Inl UserAborted
                   | Some choice \<Rightarrow>
                       if choice = ''abort'' then Inl UserAborted
                       else
                         (let alters = ensureAlter (alterCollections st) collectionHandle
                          in case updateAlter alters collectionHandle
                                    (ChangeDropColumn (col_handle column)) of
                               Inl e \<Rightarrow> Inl e
                             | Inr alters' \<Rightarrow>
                                 Inr (st\<lparr>alterCollections := alters',
                                          asked := asked st @ [p]\<rparr>)))))"
| "migrationStep promptSelection stdin stdout st (AddIndex collection index) =
     (let collectionHandle = sd_handle collection;
          columns = sortableFields (idx_columns index);
          alters = ensureAlter (alterCollections st) collectionHandle
      in case map_of alters collectionHandle of
           None \<Rightarrow> Inl MissingAlterQuery
         | Some a \<Rightarrow>
             (case mapStringToIndexType (idx_type index) of
                Inl e \<Rightarrow> Inl e
              | Inr t \<Rightarrow>
                  Inr (st\<lparr>alterCollections :=
                             map_set alters collectionHandle
                               (addChange (ChangeAddIndex (q_index (idx_handle index) t columns))
                                  a)\<rparr>)))"
| "migrationStep promptSelection stdin stdout st (DropIndex collection index) =
     (let collectionHandle = sd_handle collection;
          alters = ensureAlter (alterCollections st) collectionHandle
      in case updateAlter alters collectionHandle (ChangeDropIndex (idx_handle index)) of
           Inl e \<Rightarrow> Inl e
         | Inr alters' \<Rightarrow> Inr (st\<lparr>alterCollections := alters'\<rparr>))"

text \<open>
  \<^verbatim>\<open>diffs.sort((a, b) => 0)\<close>: a stable sort under a comparator that holds every pair
  equal, which is a sort on a constant key.
\<close>

definition sortDiffs :: "SchemaDiff list \<Rightarrow> SchemaDiff list" where
  "sortDiffs diffs = sort_key (\<lambda>d. 0 :: nat) diffs"

definition initialState :: MigrationState where
  "initialState = \<lparr>createCollections = [], alterCollections = [], asked = []\<rparr>"

text \<open>
  The run of \<^verbatim>\<open>executeSchemaMigration\<close> up to and including its calls of
  \<^verbatim>\<open>database.execute\<close>: the error thrown before them, if any, and the queries handed to
  the database, in the order of the calls. How the promises of these calls settle is the
  backend's matter.
\<close>

record Run =
  thrown :: "error option"
  executed :: "Query list"

definition executeSchemaMigration ::
  "Collaborator \<Rightarrow> PluginInitContext \<Rightarrow> SchemaDiff list \<Rightarrow> ReadStream option
     \<Rightarrow> WriteStream option \<Rightarrow> Run" where
  "executeSchemaMigration promptSelection context diffs stdin stdout =
     (case reduceE (migrationStep promptSelection stdin stdout) initialState (sortDiffs diffs) of
        Inl e \<Rightarrow> \<lparr>thrown = Some e, executed = []\<rparr>
      | Inr st \<Rightarrow>
          \<lparr>thrown = None,
           executed = map CreateCollection (createCollections st)
                      @ map AlterCollection (map_values (alterCollections st))\<rparr>)"

section \<open>Observations on diffs\<close>

text \<open>The member \<^verbatim>\<open>action\<close> of a diff, and the handle of the column a column-level diff is about.\<close>

fun action :: "SchemaDiff \<Rightarrow> string" where
  "action (AddCollection _) = ''add_collection''"
| "action (AddColumn _ _ _) = ''add_column''"
| "action (DropColumn _ _) = ''drop_column''"
| "action (AlterColumn _ _ _) = ''alter_column''"
| "action (AddIndex _ _) = ''add_index''"
| "action (DropIndex _ _) = ''drop_index''"

fun columnDiffHandle :: "SchemaDiff \<Rightarrow> string option" where
  "columnDiffHandle (AddColumn _ c _) = Some (col_handle c)"
| "columnDiffHandle (DropColumn _ c) = Some (col_handle c)"
| "columnDiffHandle (AlterColumn _ c _) = Some (col_handle c)"
| "columnDiffHandle _ = None"

text \<open>
  What the diff engine emits, written without loops and accumulators: the diffs of one live
  column, the new columns, and the index diffs of an existing collection; then the diffs of
  one declared schema. The lemmas below show that the loops compute these lists.
\<close>

definition liveColumnDiffs :: "Database \<Rightarrow> SchemaDescription \<Rightarrow> SchemaDescriptionColumn \<Rightarrow> SchemaDiff list" where
  "liveColumnDiffs db schemaDesc dbColumn =
     (case find (\<lambda>column. col_handle column = col_handle dbColumn) (sd_columns schemaDesc) of
        None \<Rightarrow> [DropColumn schemaDesc dbColumn]
      | Some column \<Rightarrow>
          (case mapStringToColumnType (col_type column) of
             Inl e \<Rightarrow> []
           | Inr declared \<Rightarrow>
               (case mapStringToColumnType (col_type dbColumn) of
                  Inl e \<Rightarrow> []
                | Inr live \<Rightarrow>
                    if Castable \<notin> compareTypes db declared live
                    then [AlterColumn schemaDesc dbColumn (col_type column)] else [])))"

definition addColumnDiffs :: "SchemaDescription \<Rightarrow> SchemaDescription \<Rightarrow> SchemaDiff list" where
  "addColumnDiffs sd dbsd =
     map (\<lambda>c. AddColumn sd c (copyCandidates dbsd (col_handle c)))
         (filter (\<lambda>c. col_handle c \<notin> set (map col_handle (sd_columns dbsd))) (sd_columns sd))"

definition indexDiffs :: "SchemaDescription \<Rightarrow> SchemaDescription \<Rightarrow> SchemaDiff list" where
  "indexDiffs sd dbsd =
     map (DropIndex sd)
         (filter (\<lambda>i. idx_handle i \<notin> set (map idx_handle (sd_indexes sd))) (sd_indexes dbsd))
     @ map (AddIndex sd)
         (filter (\<lambda>i. idx_handle i \<notin> set (map idx_handle (sd_indexes dbsd))) (sd_indexes sd))"

definition schemaDiffs :: "(IndexType \<Rightarrow> string) \<Rightarrow> PluginInitContext \<Rightarrow> Schema \<Rightarrow> SchemaDiff list" where
  "schemaDiffs ev context schema =
     (case collectionExists (database context) (s_handle schema) of
        Inl e \<Rightarrow> []
      | Inr exists \<Rightarrow>
          if \<not> exists then [AddCollection (schemaToSchemaDescription context schema)]
          else (case describeCollection (database context) (s_handle schema) of
                  Inl e \<Rightarrow> []
                | Inr desc \<Rightarrow>
                    (case databaseDescriptionToSchemaDescription ev context desc of
                       Inl e \<Rightarrow> []
                     | Inr dbSchemaDesc \<Rightarrow>
                         concat (map (liveColumnDiffs (database context)
                                        (schemaToSchemaDescription context schema))
                                     (sd_columns dbSchemaDesc))
                         @ addColumnDiffs (schemaToSchemaDescription context schema) dbSchemaDesc
                         @ indexDiffs (schemaToSchemaDescription context schema) dbSchemaDesc)))"

text \<open>
  The copy candidates in the words of the specification: the live handles that share the
  locale base of the new handle when it is localized, all live handles otherwise.
\<close>

definition localeBase :: "string \<Rightarrow> string option" where
  "localeBase h = map_option fst (matchLocalizedHandle h)"

definition copyCandidates_spec :: "string list \<Rightarrow> string \<Rightarrow> string list" where
  "copyCandidates_spec liveHandles h =
     (if localeBase h \<noteq> None then filter (\<lambda>l. localeBase l = localeBase h) liveHandles
      else liveHandles)"

text \<open>
  The action of a column-level diff of an existing collection, as its handle determines
  it: a handle that is not live is added, a live handle that is declared is altered, a
  live handle that is not declared is dropped.
\<close>

definition columnAction :: "SchemaDescription \<Rightarrow> SchemaDescription \<Rightarrow> string \<Rightarrow> string" where
  "columnAction sd dbsd h =
     (if h \<notin> set (map col_handle (sd_columns dbsd)) then ''add_column''
      else if h \<in> set (map col_handle (sd_columns sd)) then ''alter_column''
      else ''drop_column'')"
section \<open>The expansion in the words of the specification\<close>

text \<open>
  One declared field gives no column when it is a relation, one column per locale with
  the handle \<^verbatim>\<open>h__c\<close> when it is localized, and itself otherwise.
\<close>

definition expandField_spec :: "string list \<Rightarrow> Field \<Rightarrow> SchemaDescriptionColumn list" where
  "expandField_spec locs f =
     (if f_type f = ''relation'' then []
      else if f_localized f
      then map (\<lambda>c. \<lparr>col_handle = f_handle f @ ''__'' @ c, col_type = f_type f\<rparr>) locs
      else [\<lparr>col_handle = f_handle f, col_type = f_type f\<rparr>])"

text \<open>
  A field reference of an index names the first declared field with that handle; it
  references a localized field when that field is marked localized. A reference is
  qualified with a locale by the suffix \<^verbatim>\<open>__c\<close> when it references a localized field
  and is kept otherwise.
\<close>

fun refersToLocalized :: "Field list \<Rightarrow> string \<Rightarrow> bool" where
  "refersToLocalized [] name = False"
| "refersToLocalized (f # fs) name =
     (if f_handle f = name then f_localized f else refersToLocalized fs name)"

definition qualifyRef :: "Field list \<Rightarrow> string \<Rightarrow> string \<Rightarrow> string" where
  "qualifyRef fs c name = (if refersToLocalized fs name then name @ ''__'' @ c else name)"

definition qualifiedRefs :: "Field list \<Rightarrow> string \<Rightarrow> Direction obj \<Rightarrow> (string \<times> Direction) list" where
  "qualifiedRefs fs c refs = map (\<lambda>(name, dir). (qualifyRef fs c name, dir)) refs"

text \<open>
  The mapping that a list of pairs describes: every key once, at the place of its first
  pair, with the value of its last pair.
\<close>

fun lastValue :: "string \<Rightarrow> 'v \<Rightarrow> (string \<times> 'v) list \<Rightarrow> 'v" where
  "lastValue k v [] = v"
| "lastValue k v ((k', v') # ps) = lastValue k (if k' = k then v' else v) ps"

fun mappingOf :: "(string \<times> 'v) list \<Rightarrow> (string \<times> 'v) list" where
  "mappingOf [] = []"
| "mappingOf ((k, v) # ps) = (k, lastValue k v ps) # filter (\<lambda>p. fst p \<noteq> k) (mappingOf ps)"

text \<open>
  One declared index is copied as it is when none of its references names a localized
  field; otherwise it gives one copy per locale, whose handle gains the suffix and whose
  column set is the mapping of the references, qualified with that locale, to their
  directions.
\<close>

definition expandedIndexHandles :: "string list \<Rightarrow> Schema \<Rightarrow> SchemaIndex \<Rightarrow> string list" where
  "expandedIndexHandles locs schema index =
     (if list_ex (refersToLocalized (s_fields schema)) (map fst (si_fields index))
      then map (\<lambda>c. si_handle index @ ''__'' @ c) locs
      else [si_handle index])"

definition expandIndex_spec :: "string list \<Rightarrow> Schema \<Rightarrow> SchemaIndex \<Rightarrow> SchemaDescriptionIndex list" where
  "expandIndex_spec locs schema index =
     (if list_ex (refersToLocalized (s_fields schema)) (map fst (si_fields index))
      then map (\<lambda>c. \<lparr>idx_handle = si_handle index @ ''__'' @ c, idx_type = si_type index,
                      idx_columns = mappingOf (qualifiedRefs (s_fields schema) c (si_fields index))\<rparr>)
               locs
      else [\<lparr>idx_handle = si_handle index, idx_type = si_type index,
             idx_columns = si_fields index\<rparr>])"

text \<open>
  A key that an object stores behind the keys it has when the key is first assigned: any
  key but \<^verbatim>\<open>__proto__\<close> and the array indices. The references of a schema are
  storable when, in every index that references a localized field, every reference
  qualified with a locale is such a key.
\<close>

definition ordinaryKey :: "string \<Rightarrow> bool" where
  "ordinaryKey k = (k \<noteq> ''__proto__'' \<and> \<not> isArrayIndex k)"

definition storableRefs :: "string list \<Rightarrow> Schema \<Rightarrow> bool" where
  "storableRefs locs schema =
     list_all (\<lambda>index.
                 list_ex (refersToLocalized (s_fields schema)) (map fst (si_fields index)) \<longrightarrow>
                 list_all (\<lambda>c. list_all ordinaryKey
                                  (map fst (qualifiedRefs (s_fields schema) c (si_fields index))))
                          locs)
              (s_indexes schema)"

section \<open>Observations on the migration\<close>

text \<open>
  What a sub-operation and a diff are about: their kind and the column or index they
  name. A diff is folded into an \<^verbatim>\<open>AlterCollection\<close> query when the query holds a
  sub-operation of the same kind for the same name.
\<close>

fun changeTag :: "Change \<Rightarrow> string \<times> string" where
  "changeTag (ChangeAddColumn col _) = (''add_column'', c_name col)"
| "changeTag (ChangeAlterColumn n _) = (''alter_column'', n)"
| "changeTag (ChangeDropColumn n) = (''drop_column'', n)"
| "changeTag (ChangeAddIndex ix) = (''add_index'', ix_name ix)"
| "changeTag (ChangeDropIndex n) = (''drop_index'', n)"

fun diffTarget :: "SchemaDiff \<Rightarrow> string" where
  "diffTarget (AddCollection c) = sd_handle c"
| "diffTarget (AddColumn _ col _) = col_handle col"
| "diffTarget (DropColumn _ col) = col_handle col"
| "diffTarget (AlterColumn _ col _) = col_handle col"
| "diffTarget (AddIndex _ ix) = idx_handle ix"
| "diffTarget (DropIndex _ ix) = idx_handle ix"

definition diffTag :: "SchemaDiff \<Rightarrow> string \<times> string" where
  "diffTag d = (action d, diffTarget d)"

definition isAddCollection :: "SchemaDiff \<Rightarrow> bool" where
  "isAddCollection d = (action d = ''add_collection'')"

definition diffHandle :: "SchemaDiff \<Rightarrow> string" where
  "diffHandle d = sd_handle (diff_collection d)"

text \<open>
  The prompt a diff raises: dropping a column asks for confirmation, a new column with copy
  candidates asks how to initialize it, nothing else asks.
\<close>

fun promptOf :: "SchemaDiff \<Rightarrow> Prompt option" where
  "promptOf (DropColumn c col) = Some (dropColumnPrompt (sd_handle c @ ''.'' @ col_handle col))"
| "promptOf (AddColumn c col copyColumn) =
     (if copyColumn \<noteq> []
      then Some (addColumnPrompt (sd_handle c) (sd_handle c @ ''.'' @ col_handle col) copyColumn)
      else None)"
| "promptOf _ = None"

text \<open>The \<^verbatim>\<open>CreateCollection\<close> and the \<^verbatim>\<open>AlterCollection\<close> queries of a dispatch.\<close>

fun createQueries :: "Query list \<Rightarrow> CreateCollectionQuery list" where
  "createQueries [] = []"
| "createQueries (CreateCollection c # qs) = c # createQueries qs"
| "createQueries (AlterCollection a # qs) = createQueries qs"

fun alterQueries :: "Query list \<Rightarrow> AlterCollectionQuery list" where
  "alterQueries [] = []"
| "alterQueries (CreateCollection c # qs) = alterQueries qs"
| "alterQueries (AlterCollection a # qs) = a # alterQueries qs"

text \<open>
  One diff folded into the map of \<^verbatim>\<open>AlterCollection\<close> queries, and the invariant of
  the loop over the diffs: the keys of the map are distinct and are the handles of the
  diffs seen so far that are not \<^verbatim>\<open>add_collection\<close>, and every query holds, in order,
  one sub-operation for each such diff of its collection.
\<close>

definition foldChange :: "AlterCollectionQuery js_map \<Rightarrow> string \<Rightarrow> Change \<Rightarrow> AlterCollectionQuery js_map" where
  "foldChange m h c =
     (let m' = ensureAlter m h
      in case map_of m' h of None \<Rightarrow> m' | Some a \<Rightarrow> map_set m' h (addChange c a))"

definition altersInv :: "AlterCollectionQuery js_map \<Rightarrow> SchemaDiff list \<Rightarrow> bool" where
  "altersInv m done =
     (distinct (map fst m)
      \<and> (\<forall>k a. map_of m k = Some a \<longrightarrow>
             aq_collection a = k
             \<and> map changeTag (aq_changes a)
               = map diffTag (filter (\<lambda>d. \<not> isAddCollection d \<and> diffHandle d = k) done))
      \<and> set (map fst m) = set (map diffHandle (filter (\<lambda>d. \<not> isAddCollection d) done)))"

text \<open>
  The order of sub-operations that the specification states: columns added, then altered,
  then dropped, then indexes added, then dropped.
\<close>

definition changeRank :: "Change \<Rightarrow> nat" where
  "changeRank c =
     (case c of ChangeAddColumn _ _ \<Rightarrow> 0 | ChangeAlterColumn _ _ \<Rightarrow> 1 | ChangeDropColumn _ \<Rightarrow> 2
      | ChangeAddIndex _ \<Rightarrow> 3 | ChangeDropIndex _ \<Rightarrow> 4)"

text \<open>
  A live description equals a schema description when it names the same collection, its
  columns have, in order, the handles of the description and the backend types of their
  type strings, and its indexes have, in order, the handles of the description, the
  backend types of their type strings and the keys of their column sets, each with its
  direction (a direction that is not reported is ascending).
\<close>

definition liveEquals :: "DescribeCollectionQueryResult \<Rightarrow> SchemaDescription \<Rightarrow> bool" where
  "liveEquals live sd =
     (d_collection live = sd_handle sd
      \<and> list_all2 (\<lambda>q c. c_name q = col_handle c
                          \<and> mapStringToColumnType (col_type c) = Inr (c_type q))
                   (d_columns live) (sd_columns sd)
      \<and> list_all2 (\<lambda>q i. ix_name q = idx_handle i
                          \<and> mapStringToIndexType (idx_type i) = Inr (ix_type q)
                          \<and> map (\<lambda>s. (sf_name s, directionOrAsc (sf_direction s))) (ix_columns q)
                            = idx_columns i)
                   (d_indexes live) (sd_indexes sd))"

text \<open>
  The logical description of a schema in the words of the specification: one column per
  field that is not a relation, under the field's own handle, and the declared indexes.
\<close>

definition logicalDescription :: "Schema \<Rightarrow> SchemaDescription" where
  "logicalDescription schema =
     \<lparr>sd_handle = s_handle schema,
      sd_columns = map (\<lambda>f. \<lparr>col_handle = f_handle f, col_type = f_type f\<rparr>)
                       (filter (\<lambda>f. f_type f \<noteq> ''relation'') (s_fields schema)),
      sd_indexes = map (\<lambda>i. \<lparr>idx_handle = si_handle i, idx_type = si_type i,
                               idx_columns = si_fields i\<rparr>) (s_indexes schema)\<rparr>"

text \<open>
  The type string that comes back from the backend for a declared type:
  \<^verbatim>\<open>mapColumnTypeToFieldType\<close> after \<^verbatim>\<open>mapStringToColumnType\<close>.
\<close>

definition canonicalType :: "string \<Rightarrow> string" where
  "canonicalType t =
     (if t = ''password'' \<or> t = ''slug'' \<or> t = ''html'' then ''text''
      else if t = ''date'' then ''datetime'' else t)"

text \<open>
  When the field references of an index can be told apart after the expansion: the keys
  are distinct, none is \<^verbatim>\<open>__proto__\<close> or an array index, a reference to a localized
  field is a nonempty run of handle characters, and a reference to another field does not
  itself look like a localized handle. A schema is ready to collapse when its locale codes
  have the shape of the pattern and all its indexes are so. The column sets of the logical
  index, once per copy that the expansion makes.
\<close>

definition indexFieldsReady :: "Schema \<Rightarrow> Direction obj \<Rightarrow> bool" where
  "indexFieldsReady schema flds =
     (distinct (map fst flds)
      \<and> list_all (\<lambda>name. ordinaryKey name
                          \<and> (if refersToLocalized (s_fields schema) name
                             then name \<noteq> [] \<and> list_all isHandleChar name
                             else matchLocalizedHandle name = None)) (map fst flds))"

definition collapseReady :: "PluginInitContext \<Rightarrow> Schema \<Rightarrow> bool" where
  "collapseReady context schema =
     (list_all isLocaleCode (locales context)
      \<and> list_all (\<lambda>index. indexFieldsReady schema (si_fields index)) (s_indexes schema))"

definition logicalIndexColumns :: "string list \<Rightarrow> Schema \<Rightarrow> SchemaIndex \<Rightarrow> Direction obj list" where
  "logicalIndexColumns locs schema index =
     (if list_ex (refersToLocalized (s_fields schema)) (map fst (si_fields index))
      then map (\<lambda>c. si_fields index) locs
      else [si_fields index])"

section \<open>A worked example\<close>

text \<open>
  A backend that holds the collection \<^verbatim>\<open>Post\<close> and no other, two locales, and two
  declared schemas. It is the concrete input of the instances below.
\<close>

definition demoDatabase :: Database where
  "demoDatabase =
     \<lparr>collectionExists = (\<lambda>h. Inr (h = ''Post'')),
      describeCollection =
        (\<lambda>h. if h = ''Post''
              then Inr \<lparr>d_collection = ''Post'',
                        d_columns = [q_column ''title__en'' Text, q_column ''views'' Text,
                                     q_column ''legacy'' Int64],
                        d_indexes = [q_index ''Post_pk'' Primary [q_sort ''id'' Asc]]\<rparr>
              else Inl (BackendError ''no such collection'')),
      compareTypes = (\<lambda>a b. if a = b then {Equal, Castable, Comparable} else {})\<rparr>"

definition demoContext :: PluginInitContext where
  "demoContext = \<lparr>locales = [''en'', ''fr''], database = demoDatabase\<rparr>"

definition demoPost :: Schema where
  "demoPost =
     \<lparr>s_handle = ''Post'',
      s_fields = [\<lparr>f_handle = ''title'', f_type = ''text'', f_localized = True\<rparr>,
                  \<lparr>f_handle = ''views'', f_type = ''int'', f_localized = False\<rparr>,
                  \<lparr>f_handle = ''author'', f_type = ''relation'', f_localized = False\<rparr>,
                  \<lparr>f_handle = ''summary'', f_type = ''text'', f_localized = False\<rparr>],
      s_indexes = [\<lparr>si_handle = ''Post_title'', si_type = ''unique'',
                    si_fields = [(''title'', Asc), (''views'', Desc)]\<rparr>,
                   \<lparr>si_handle = ''Post_views'', si_type = ''index'',
                    si_fields = [(''views'', Desc)]\<rparr>]\<rparr>"

definition demoTag :: Schema where
  "demoTag =
     \<lparr>s_handle = ''Tag'',
      s_fields = [\<lparr>f_handle = ''name'', f_type = ''text'', f_localized = False\<rparr>],
      s_indexes = []\<rparr>"


definition demoPostDesc :: SchemaDescription where
  "demoPostDesc =
     \<lparr>sd_handle = ''Post'',
      sd_columns = [\<lparr>col_handle = ''title__en'', col_type = ''text''\<rparr>,
                    \<lparr>col_handle = ''title__fr'', col_type = ''text''\<rparr>,
                    \<lparr>col_handle = ''views'', col_type = ''int''\<rparr>,
                    \<lparr>col_handle = ''summary'', col_type = ''text''\<rparr>],
      sd_indexes = [\<lparr>idx_handle = ''Post_title__en'', idx_type = ''unique'',
                     idx_columns = [(''title__en'', Asc), (''views'', Desc)]\<rparr>,
                    \<lparr>idx_handle = ''Post_title__fr'', idx_type = ''unique'',
                     idx_columns = [(''title__fr'', Asc), (''views'', Desc)]\<rparr>,
                    \<lparr>idx_handle = ''Post_views'', idx_type = ''index'',
                     idx_columns = [(''views'', Desc)]\<rparr>]\<rparr>"

definition demoLive :: DescribeCollectionQueryResult where
  "demoLive =
     \<lparr>d_collection = ''Post'',
      d_columns = [q_column ''title__en'' Text, q_column ''views'' Text,
                   q_column ''legacy'' Int64],
      d_indexes = [q_index ''Post_pk'' Primary [q_sort ''id'' Asc]]\<rparr>"

definition demoLiveDesc :: SchemaDescription where
  "demoLiveDesc =
     \<lparr>sd_handle = ''Post'',
      sd_columns = [\<lparr>col_handle = ''title__en'', col_type = ''text''\<rparr>,
                    \<lparr>col_handle = ''views'', col_type = ''text''\<rparr>,
                    \<lparr>col_handle = ''legacy'', col_type = ''int''\<rparr>],
      sd_indexes = [\<lparr>idx_handle = ''Post_pk'', idx_type = ''primary'',
                     idx_columns = [(''id'', Asc)]\<rparr>]\<rparr>"

definition demoTagDesc :: SchemaDescription where
  "demoTagDesc =
     \<lparr>sd_handle = ''Tag'',
      sd_columns = [\<lparr>col_handle = ''name'', col_type = ''text''\<rparr>],
      sd_indexes = []\<rparr>"

definition demoDiffs :: "SchemaDiff list" where
  "demoDiffs =
     [AlterColumn demoPostDesc \<lparr>col_handle = ''views'', col_type = ''text''\<rparr> ''int'',
      DropColumn demoPostDesc \<lparr>col_handle = ''legacy'', col_type = ''int''\<rparr>,
      AddColumn demoPostDesc \<lparr>col_handle = ''title__fr'', col_type = ''text''\<rparr> [''title__en''],
      AddColumn demoPostDesc \<lparr>col_handle = ''summary'', col_type = ''text''\<rparr>
        [''title__en'', ''views'', ''legacy''],
      DropIndex demoPostDesc \<lparr>idx_handle = ''Post_pk'', idx_type = ''primary'',
                               idx_columns = [(''id'', Asc)]\<rparr>,
      AddIndex demoPostDesc \<lparr>idx_handle = ''Post_title__en'', idx_type = ''unique'',
                              idx_columns = [(''title__en'', Asc), (''views'', Desc)]\<rparr>,
      AddIndex demoPostDesc \<lparr>idx_handle = ''Post_title__fr'', idx_type = ''unique'',
                              idx_columns = [(''title__fr'', Asc), (''views'', Desc)]\<rparr>,
      AddIndex demoPostDesc \<lparr>idx_handle = ''Post_views'', idx_type = ''index'',
                              idx_columns = [(''views'', Desc)]\<rparr>,
      AddCollection demoTagDesc]"

text \<open>
  Two operators at the terminal: one confirms every deletion, copies \<^verbatim>\<open>title__en\<close>
  into the new locale column and leaves the other new column empty; the other confirms the
  first prompt and aborts at the second.
\<close>

definition demoOperator :: Collaborator where
  "demoOperator i out history message choices =
     (if ''drop'' \<in> set (map fst choices) then Some ''drop''
      else if ''title__en'' \<in> set (map fst choices) \<and> length choices = 3 then Some ''title__en''
      else Some ''empty'')"

definition demoRefuser :: Collaborator where
  "demoRefuser i out history message choices =
     (if history = [] then Some ''drop'' else Some ''abort'')"

text \<open>The migration of the example under the first operator.\<close>

definition demoRun :: Run where
  "demoRun =
     \<lparr>thrown = None,
      executed =
        [CreateCollection
           \<lparr>cq_collection = ''Tag'', cq_columns = [q_column ''name'' Text], cq_indexes = []\<rparr>,
         AlterCollection
           \<lparr>aq_collection = ''Post'',
            aq_changes =
              [ChangeAlterColumn ''views'' (q_column ''views'' Int64),
               ChangeDropColumn ''legacy'',
               ChangeAddColumn (q_column ''title__fr'' Text) (Some ''title__en''),
               ChangeAddColumn (q_column ''summary'' Text) None,
               ChangeDropIndex ''Post_pk'',
               ChangeAddIndex (q_index ''Post_title__en'' Unique
                                 [q_sort ''title__en'' Asc, q_sort ''views'' Desc]),
               ChangeAddIndex (q_index ''Post_title__fr'' Unique
                                 [q_sort ''title__fr'' Asc, q_sort ''views'' Desc]),
               ChangeAddIndex (q_index ''Post_views'' Index [q_sort ''views'' Desc])]\<rparr>]\<rparr>"

text \<open>The state of the migration under the second operator when it aborts.\<close>

definition demoAbortState :: MigrationState where
  "demoAbortState =
     \<lparr>createCollections = [],
      alterCollections =
        [(''Post'', \<lparr>aq_collection = ''Post'',
                    aq_changes = [ChangeAlterColumn ''views'' (q_column ''views'' Int64),
                                  ChangeDropColumn ''legacy'']\<rparr>)],
      asked = [dropColumnPrompt ''Post.legacy'']\<rparr>"

text \<open>
  A live description of the collection \<^verbatim>\<open>Post\<close> that equals the expansion of its
  declared schema.
\<close>

definition demoPostLive :: DescribeCollectionQueryResult where
  "demoPostLive =
     \<lparr>d_collection = ''Post'',
      d_columns = [q_column ''title__en'' Text, q_column ''title__fr'' Text,
                   q_column ''views'' Int64, q_column ''summary'' Text],
      d_indexes = [q_index ''Post_title__en'' Unique
                     [q_sort ''title__en'' Asc, q_sort ''views'' Desc],
                   q_index ''Post_title__fr'' Unique
                     [q_sort ''title__fr'' Asc, q_sort ''views'' Desc],
                   q_index ''Post_views'' Index [q_sort ''views'' Desc]]\<rparr>"

text \<open>A schema with the single localized field \<^verbatim>\<open>title\<close>, for the locales en and fr.\<close>

definition titleContext :: PluginInitContext where
  "titleContext = \<lparr>locales = [''en'', ''fr''], database = demoDatabase\<rparr>"

definition titleSchema :: Schema where
  "titleSchema =
     \<lparr>s_handle = ''Post'',
      s_fields = [\<lparr>f_handle = ''title'', f_type = ''text'', f_localized = True\<rparr>],
      s_indexes = []\<rparr>"

definition titleExpanded :: SchemaDescription where
  "titleExpanded =
     \<lparr>sd_handle = ''Post'',
      sd_columns = [\<lparr>col_handle = ''title__en'', col_type = ''text''\<rparr>,
                    \<lparr>col_handle = ''title__fr'', col_type = ''text''\<rparr>],
      sd_indexes = []\<rparr>"

definition titleLive :: DescribeCollectionQueryResult where
  "titleLive =
     \<lparr>d_collection = ''Post'',
      d_columns = [q_column ''title__en'' Text, q_column ''title__fr'' Text],
      d_indexes = []\<rparr>"



text \<open>
  A schema that declares the localized field \<^verbatim>\<open>title\<close> beside the field
  \<^verbatim>\<open>title__en\<close>, for the locale en, and a backend whose collection \<^verbatim>\<open>Post\<close>
  holds the single column \<^verbatim>\<open>views\<close>.
\<close>

definition twinDatabase :: Database where
  "twinDatabase =
     \<lparr>collectionExists = (\<lambda>h. Inr (h = ''Post'')),
      describeCollection =
        (\<lambda>h. if h = ''Post''
              then Inr \<lparr>d_collection = ''Post'', d_columns = [q_column ''views'' Int64],
                        d_indexes = []\<rparr>
              else Inl (BackendError ''no such collection'')),
      compareTypes = (\<lambda>a b. if a = b then {Equal, Castable, Comparable} else {})\<rparr>"

definition twinContext :: PluginInitContext where
  "twinContext = \<lparr>locales = [''en''], database = twinDatabase\<rparr>"

definition twinSchema :: Schema where
  "twinSchema =
     \<lparr>s_handle = ''Post'',
      s_fields = [\<lparr>f_handle = ''title'', f_type = ''text'', f_localized = True\<rparr>,
                  \<lparr>f_handle = ''title__en'', f_type = ''int'', f_localized = False\<rparr>,
                  \<lparr>f_handle = ''views'', f_type = ''int'', f_localized = False\<rparr>],
      s_indexes = []\<rparr>"

definition twinDesc :: SchemaDescription where
  "twinDesc =
     \<lparr>sd_handle = ''Post'',
      sd_columns = [\<lparr>col_handle = ''title__en'', col_type = ''text''\<rparr>,
                    \<lparr>col_handle = ''title__en'', col_type = ''int''\<rparr>,
                    \<lparr>col_handle = ''views'', col_type = ''int''\<rparr>],
      sd_indexes = []\<rparr>"

definition twinLive :: DescribeCollectionQueryResult where
  "twinLive = \<lparr>d_collection = ''Post'', d_columns = [q_column ''views'' Int64], d_indexes = []\<rparr>"

definition twinLiveDesc :: SchemaDescription where
  "twinLiveDesc =
     \<lparr>sd_handle = ''Post'', sd_columns = [\<lparr>col_handle = ''views'', col_type = ''int''\<rparr>],
      sd_indexes = []\<rparr>"

definition twinDiffs :: "SchemaDiff list" where
  "twinDiffs =
     [AddColumn twinDesc \<lparr>col_handle = ''title__en'', col_type = ''text''\<rparr> [],
      AddColumn twinDesc \<lparr>col_handle = ''title__en'', col_type = ''int''\<rparr> []]"

section \<open>The loops of the diff engine\<close>

lemma foldl_snoc_map: "foldl (\<lambda>acc x. acc @ [g x]) acc xs = acc @ map g xs"
  by (induction xs arbitrary: acc) simp_all

lemma foldl_snoc_filter_map:
  "foldl (\<lambda>acc x. if P x then acc @ [g x] else acc) acc xs = acc @ map g (filter P xs)"
  by (induction xs arbitrary: acc) simp_all

lemma find_None_handle:
  "(find (\<lambda>c. f c = h) xs = None) = (h \<notin> set (map f xs))"
  by (induction xs) auto

lemma find_Some_handle:
  "find (\<lambda>c. f c = h) xs = Some c \<Longrightarrow> f c = h \<and> c \<in> set xs"
  by (induction xs) (auto split: if_splits)

lemma liveColumnStep_Inr:
  assumes "liveColumnStep db sd st c = Inr st'"
  shows "fst st' = fst st @ filter (\<lambda>h. h \<in> set (map col_handle (sd_columns sd))) [col_handle c]
   \<and> snd st' = snd st @ liveColumnDiffs db sd c"
proof (cases "find (\<lambda>column. col_handle column = col_handle c) (sd_columns sd)")
  case None
  then have "col_handle c \<notin> set (map col_handle (sd_columns sd))"
    by (simp add: find_None_handle)
  with None assms show ?thesis
    by (auto simp: liveColumnStep_def liveColumnDiffs_def)
next
  case (Some column)
  then have "col_handle column = col_handle c" "column \<in> set (sd_columns sd)"
    by (auto dest: find_Some_handle)
  then have "col_handle c \<in> set (map col_handle (sd_columns sd))"
    by (metis image_eqI set_map)
  with Some assms \<open>col_handle column = col_handle c\<close> show ?thesis
    by (auto simp: liveColumnStep_def liveColumnDiffs_def split: sum.splits if_splits)
qed

lemma liveColumns_Inr:
  "reduceE (liveColumnStep db sd) st cols = Inr st' \<Longrightarrow>
   fst st' = fst st @ filter (\<lambda>h. h \<in> set (map col_handle (sd_columns sd))) (map col_handle cols)
   \<and> snd st' = snd st @ concat (map (liveColumnDiffs db sd) cols)"
proof (induction cols arbitrary: st)
  case Nil
  then show ?case by simp
next
  case (Cons c cols)
  from Cons.prems obtain st1 where s1: "liveColumnStep db sd st c = Inr st1"
    and r: "reduceE (liveColumnStep db sd) st1 cols = Inr st'"
    by (auto split: sum.splits)
  from liveColumnStep_Inr[OF s1] Cons.IH[OF r] show ?case by simp
qed

lemma declaredColumns_fold:
  "foldl (declaredColumnStep sd dbsd muted) ds cols =
   ds @ map (\<lambda>c. AddColumn sd c (copyCandidates dbsd (col_handle c)))
            (filter (\<lambda>c. col_handle c \<notin> set muted) cols)"
  by (induction cols arbitrary: ds) (simp_all add: declaredColumnStep_def)

lemma liveIndexStep_eq:
  "liveIndexStep sd st i =
   (fst st @ [idx_handle i],
    snd st @ map (DropIndex sd)
               (filter (\<lambda>i. idx_handle i \<notin> set (map idx_handle (sd_indexes sd))) [i]))"
proof (cases "find (\<lambda>index. idx_handle index = idx_handle i) (sd_indexes sd)")
  case None
  then have "idx_handle i \<notin> set (map idx_handle (sd_indexes sd))"
    by (simp add: find_None_handle)
  with None show ?thesis by (simp add: liveIndexStep_def)
next
  case (Some a)
  then have "idx_handle a = idx_handle i" "a \<in> set (sd_indexes sd)"
    by (auto dest: find_Some_handle)
  then have "idx_handle i \<in> set (map idx_handle (sd_indexes sd))"
    by (metis image_eqI set_map)
  with Some show ?thesis by (simp add: liveIndexStep_def)
qed

lemma liveIndexes_fold:
  "foldl (liveIndexStep sd) st idxs =
   (fst st @ map idx_handle idxs,
    snd st @ map (DropIndex sd)
               (filter (\<lambda>i. idx_handle i \<notin> set (map idx_handle (sd_indexes sd))) idxs))"
proof (induction idxs arbitrary: st)
  case Nil
  then show ?case by simp
next
  case (Cons i idxs)
  show ?case by (simp only: foldl_Cons Cons.IH liveIndexStep_eq[of sd st i]) simp
qed

lemma declaredIndexes_fold:
  "foldl (declaredIndexStep sd muted) ds idxs =
   ds @ map (AddIndex sd) (filter (\<lambda>i. idx_handle i \<notin> set muted) idxs)"
  by (induction idxs arbitrary: ds) (simp_all add: declaredIndexStep_def)

lemma muted_filter:
  "filter (\<lambda>c. col_handle c \<notin> set (filter (\<lambda>h. h \<in> set (map col_handle ds)) ls)) ds
   = filter (\<lambda>c. col_handle c \<notin> set ls) ds"
  by (rule filter_cong) auto

lemma diffExisting_Inr:
  assumes "diffExisting db sd dbsd ds = Inr ds'"
  shows "ds' = ds @ concat (map (liveColumnDiffs db sd) (sd_columns dbsd))
               @ addColumnDiffs sd dbsd @ indexDiffs sd dbsd"
proof -
  from assms obtain st1 where
    r: "reduceE (liveColumnStep db sd) ([], ds) (sd_columns dbsd) = Inr st1"
    by (auto simp: diffExisting_def split: sum.splits)
  from liveColumns_Inr[OF r] have
    m: "fst st1 = filter (\<lambda>h. h \<in> set (map col_handle (sd_columns sd))) (map col_handle (sd_columns dbsd))"
    and d: "snd st1 = ds @ concat (map (liveColumnDiffs db sd) (sd_columns dbsd))"
    by simp_all
  have "ds' = foldl (declaredIndexStep sd (fst (foldl (liveIndexStep sd) ([], foldl (declaredColumnStep sd dbsd (fst st1)) (snd st1) (sd_columns sd)) (sd_indexes dbsd))))
                (snd (foldl (liveIndexStep sd) ([], foldl (declaredColumnStep sd dbsd (fst st1)) (snd st1) (sd_columns sd)) (sd_indexes dbsd)))
                (sd_indexes sd)"
    using assms r by (simp add: diffExisting_def Let_def)
  also have "\<dots> = ds @ concat (map (liveColumnDiffs db sd) (sd_columns dbsd))
               @ addColumnDiffs sd dbsd @ indexDiffs sd dbsd"
    unfolding declaredColumns_fold liveIndexes_fold declaredIndexes_fold m d
      addColumnDiffs_def indexDiffs_def muted_filter
    by simp
  finally show ?thesis .
qed

lemma diffSchema_Inr:
  assumes "diffSchema ev context ds schema = Inr ds'"
  shows "ds' = ds @ schemaDiffs ev context schema"
proof (cases "collectionExists (database context) (s_handle schema)")
  case (Inl e)
  with assms show ?thesis by (simp add: diffSchema_def)
next
  case (Inr exists)
  show ?thesis
  proof (cases exists)
    case False
    with Inr assms show ?thesis by (auto simp: diffSchema_def schemaDiffs_def)
  next
    case True
    with Inr assms obtain desc dbsd where
      d: "describeCollection (database context) (s_handle schema) = Inr desc"
      and b: "databaseDescriptionToSchemaDescription ev context desc = Inr dbsd"
      and e: "diffExisting (database context) (schemaToSchemaDescription context schema) dbsd ds = Inr ds'"
      by (auto simp: diffSchema_def split: sum.splits)
    from diffExisting_Inr[OF e] Inr True d b show ?thesis
      by (simp add: schemaDiffs_def)
  qed
qed

lemma reduce_diffSchema_Inr:
  "reduceE (diffSchema ev context) ds schemas = Inr ds' \<Longrightarrow>
   ds' = ds @ concat (map (schemaDiffs ev context) schemas)"
proof (induction schemas arbitrary: ds)
  case Nil
  then show ?case by simp
next
  case (Cons s schemas)
  from Cons.prems obtain ds1 where s1: "diffSchema ev context ds s = Inr ds1"
    and r: "reduceE (diffSchema ev context) ds1 schemas = Inr ds'"
    by (auto split: sum.splits)
  from diffSchema_Inr[OF s1] Cons.IH[OF r] show ?case by simp
qed

lemma getSchemaDiff_Inr:
  "getSchemaDiff ev context schemas = Inr diffs \<Longrightarrow>
   diffs = concat (map (schemaDiffs ev context) schemas)"
  using reduce_diffSchema_Inr[of ev "context" "[]" schemas diffs] by (simp add: getSchemaDiff_def)

lemma reduceE_Inr_all:
  "reduceE f s xs = Inr s' \<Longrightarrow> x \<in> set xs \<Longrightarrow> \<exists>s1 s2. f s1 x = Inr s2"
proof (induction xs arbitrary: s)
  case Nil
  then show ?case by simp
next
  case (Cons y ys)
  from Cons.prems(1) obtain s1 where s1: "f s y = Inr s1" and r: "reduceE f s1 ys = Inr s'"
    by (auto split: sum.splits)
  show ?case
  proof (cases "x = y")
    case True
    with s1 show ?thesis by blast
  next
    case False
    with Cons.prems(2) have "x \<in> set ys" by simp
    from Cons.IH[OF r this] show ?thesis .
  qed
qed

lemma liveColumnDiffs_collection:
  "d \<in> set (liveColumnDiffs db sd c) \<Longrightarrow> diff_collection d = sd \<and> columnDiffHandle d = Some (col_handle c)"
  by (auto simp: liveColumnDiffs_def split: option.splits sum.splits if_splits)

lemma addColumnDiffs_collection:
  "d \<in> set (addColumnDiffs sd dbsd) \<Longrightarrow> diff_collection d = sd"
  by (auto simp: addColumnDiffs_def)

lemma indexDiffs_collection:
  "d \<in> set (indexDiffs sd dbsd) \<Longrightarrow> diff_collection d = sd \<and> columnDiffHandle d = None"
  by (auto simp: indexDiffs_def)

lemma schemaDiffs_collection:
  "d \<in> set (schemaDiffs ev context schema) \<Longrightarrow>
   diff_collection d = schemaToSchemaDescription context schema"
  by (auto simp: schemaDiffs_def split: sum.splits if_splits
       dest: liveColumnDiffs_collection addColumnDiffs_collection indexDiffs_collection)

lemma schemaDiffs_handle:
  "d \<in> set (schemaDiffs ev context schema) \<Longrightarrow> sd_handle (diff_collection d) = s_handle schema"
  by (simp add: schemaDiffs_collection schemaToSchemaDescription_def)

lemma filter_concat_distinct_key:
  assumes "distinct (map k xs)" "x \<in> set xs"
    and "\<And>y d. y \<in> set xs \<Longrightarrow> d \<in> set (g y) \<Longrightarrow> key d = k y"
  shows "filter (\<lambda>d. key d = k x) (concat (map g xs)) = g x"
  using assms
proof (induction xs)
  case Nil
  then show ?case by simp
next
  case (Cons y ys)
  have keys: "\<And>z d. z \<in> set ys \<Longrightarrow> d \<in> set (g z) \<Longrightarrow> key d = k z"
    using Cons.prems(3) by simp
  show ?case
  proof (cases "x = y")
    case True
    have "filter (\<lambda>d. key d = k x) (g y) = g y"
      using Cons.prems(3)[of y] True by (simp add: filter_id_conv)
    moreover have "filter (\<lambda>d. key d = k x) (concat (map g ys)) = []"
    proof -
      have "\<And>z d. z \<in> set ys \<Longrightarrow> d \<in> set (g z) \<Longrightarrow> key d \<noteq> k x"
      proof -
        fix z d assume z: "z \<in> set ys" and d: "d \<in> set (g z)"
        from Cons.prems(1) z True have "k z \<noteq> k x" by (auto simp: image_iff)
        with keys[OF z d] show "key d \<noteq> k x" by simp
      qed
      then show ?thesis by (auto simp: filter_empty_conv)
    qed
    ultimately show ?thesis using True by simp
  next
    case False
    with Cons.prems(2) have xin: "x \<in> set ys" by simp
    from Cons.prems(1) xin have "k y \<noteq> k x" by (auto simp: image_iff)
    then have "filter (\<lambda>d. key d = k x) (g y) = []"
      using Cons.prems(3)[of y] by (auto simp: filter_empty_conv)
    moreover from Cons.prems(1) have "distinct (map k ys)" by simp
    note Cons.IH[OF this xin keys]
    ultimately show ?thesis by simp
  qed
qed

lemma getSchemaDiff_piece:
  assumes "getSchemaDiff ev context schemas = Inr diffs"
    and "distinct (map s_handle schemas)" and "schema \<in> set schemas"
  shows "filter (\<lambda>d. sd_handle (diff_collection d) = s_handle schema) diffs
         = schemaDiffs ev context schema"
  unfolding getSchemaDiff_Inr[OF assms(1)]
  by (rule filter_concat_distinct_key[OF assms(2,3)]) (rule schemaDiffs_handle)

lemma schemaDiffs_existing:
  assumes "collectionExists (database context) (s_handle schema) = Inr True"
    and "describeCollection (database context) (s_handle schema) = Inr desc"
    and "databaseDescriptionToSchemaDescription ev context desc = Inr dbsd"
  shows "schemaDiffs ev context schema =
         concat (map (liveColumnDiffs (database context) (schemaToSchemaDescription context schema))
                     (sd_columns dbsd))
         @ addColumnDiffs (schemaToSchemaDescription context schema) dbsd
         @ indexDiffs (schemaToSchemaDescription context schema) dbsd"
  using assms by (simp add: schemaDiffs_def)

lemma schemaDiffs_missing:
  assumes "collectionExists (database context) (s_handle schema) = Inr False"
  shows "schemaDiffs ev context schema = [AddCollection (schemaToSchemaDescription context schema)]"
  using assms by (simp add: schemaDiffs_def)

text \<open>When the whole run succeeds, so did every step over a live column.\<close>

lemma getSchemaDiff_liveColumn_ok:
  assumes run: "getSchemaDiff ev context schemas = Inr diffs" and mem: "schema \<in> set schemas"
    and ex: "collectionExists (database context) (s_handle schema) = Inr True"
    and de: "describeCollection (database context) (s_handle schema) = Inr desc"
    and db: "databaseDescriptionToSchemaDescription ev context desc = Inr dbsd"
    and col: "dbColumn \<in> set (sd_columns dbsd)"
  shows "\<exists>st st'. liveColumnStep (database context) (schemaToSchemaDescription context schema)
                     st dbColumn = Inr st'"
proof -
  from reduceE_Inr_all[OF run[unfolded getSchemaDiff_def] mem]
  obtain ds ds' where "diffSchema ev context ds schema = Inr ds'" by blast
  with ex de db have
    "diffExisting (database context) (schemaToSchemaDescription context schema) dbsd ds = Inr ds'"
    by (simp add: diffSchema_def)
  then obtain st1 where
    "reduceE (liveColumnStep (database context) (schemaToSchemaDescription context schema))
       ([], ds) (sd_columns dbsd) = Inr st1"
    by (auto simp: diffExisting_def split: sum.splits)
  from reduceE_Inr_all[OF this col] show ?thesis .
qed

lemma liveColumnStep_types:
  assumes "liveColumnStep db sd st dbColumn = Inr st'"
    and "find (\<lambda>c. col_handle c = col_handle dbColumn) (sd_columns sd) = Some column"
  shows "\<exists>declared live. mapStringToColumnType (col_type column) = Inr declared
           \<and> mapStringToColumnType (col_type dbColumn) = Inr live"
  using assms by (auto simp: liveColumnStep_def split: sum.splits)

lemma liveColumnDiffs_matched:
  assumes "find (\<lambda>c. col_handle c = col_handle dbColumn) (sd_columns sd) = Some column"
    and "mapStringToColumnType (col_type column) = Inr declared"
    and "mapStringToColumnType (col_type dbColumn) = Inr live"
  shows "liveColumnDiffs db sd dbColumn =
         (if Castable \<notin> compareTypes db declared live
          then [AlterColumn sd dbColumn (col_type column)] else [])"
  using assms by (simp add: liveColumnDiffs_def)

lemma filter_handle_liveColumnDiffs:
  assumes "distinct (map col_handle cols)" "c \<in> set cols"
  shows "filter (\<lambda>d. columnDiffHandle d = Some (col_handle c)) (concat (map (liveColumnDiffs db sd) cols))
         = liveColumnDiffs db sd c"
proof -
  have "filter (\<lambda>d. columnDiffHandle d = (Some \<circ> col_handle) c)
          (concat (map (liveColumnDiffs db sd) cols)) = liveColumnDiffs db sd c"
  proof (rule filter_concat_distinct_key)
    show "distinct (map (Some \<circ> col_handle) cols)"
      using assms(1) by (simp add: distinct_map comp_inj_on_iff[symmetric] inj_on_def)
    show "c \<in> set cols" by (rule assms(2))
    show "\<And>y d. y \<in> set cols \<Longrightarrow> d \<in> set (liveColumnDiffs db sd y) \<Longrightarrow>
            columnDiffHandle d = (Some \<circ> col_handle) y"
      by (simp add: liveColumnDiffs_collection)
  qed
  then show ?thesis by simp
qed

lemma filter_handle_addColumnDiffs_live:
  assumes "h \<in> set (map col_handle (sd_columns dbsd))"
  shows "filter (\<lambda>d. columnDiffHandle d = Some h) (addColumnDiffs sd dbsd) = []"
  using assms by (auto simp: addColumnDiffs_def filter_empty_conv)

lemma filter_handle_indexDiffs:
  "filter (\<lambda>d. columnDiffHandle d = Some h) (indexDiffs sd dbsd) = []"
  by (auto simp: filter_empty_conv dest: indexDiffs_collection)

lemma filter_conj_piece:
  assumes "filter (\<lambda>d. sd_handle (diff_collection d) = hc) diffs = piece"
  shows "filter (\<lambda>d. sd_handle (diff_collection d) = hc \<and> P d) diffs = filter P piece"
proof -
  have "filter (\<lambda>d. sd_handle (diff_collection d) = hc \<and> P d) diffs
        = filter P (filter (\<lambda>d. sd_handle (diff_collection d) = hc) diffs)"
    by (simp add: conj_commute)
  with assms show ?thesis by simp
qed

lemma diffSchema_describe_irrelevant:
  assumes ex: "collectionExists (database context) h = Inr False"
    and agree: "\<And>h'. h' \<noteq> h \<Longrightarrow> g h' = describeCollection (database context) h'"
  shows "diffSchema ev (context\<lparr>database := (database context)\<lparr>describeCollection := g\<rparr>\<rparr>) ds schema
         = diffSchema ev context ds schema"
proof -
  let ?c = "context\<lparr>database := (database context)\<lparr>describeCollection := g\<rparr>\<rparr>"
  have e1: "schemaToSchemaDescription ?c schema = schemaToSchemaDescription context schema"
    by (simp add: schemaToSchemaDescription_def)
  have e2: "collectionExists (database ?c) = collectionExists (database context)"
    by simp
  have e4: "databaseDescriptionToSchemaDescription ev ?c
            = databaseDescriptionToSchemaDescription ev context"
    by (intro ext) (simp add: databaseDescriptionToSchemaDescription_def)
  have step: "liveColumnStep (database ?c) = liveColumnStep (database context)"
    by (intro ext) (simp add: liveColumnStep_def cong: option.case_cong sum.case_cong)
  have e5: "diffExisting (database ?c) = diffExisting (database context)"
    by (intro ext) (simp only: diffExisting_def step)
  show ?thesis
  proof (cases "s_handle schema = h")
    case True
    with ex show ?thesis
      unfolding diffSchema_def e1 e2 by simp
  next
    case False
    have e3: "describeCollection (database ?c) (s_handle schema)
              = describeCollection (database context) (s_handle schema)"
      using agree[OF False] by simp
    show ?thesis
      unfolding diffSchema_def e1 e2 e3 e4 e5 by (rule refl)
  qed
qed

lemma reduceE_cong: "(\<And>s x. f s x = g s x) \<Longrightarrow> reduceE f s xs = reduceE g s xs"
  by (induction xs arbitrary: s) (simp_all split: sum.splits)

lemma copyCandidates_spec_eq:
  "copyCandidates dbsd h = copyCandidates_spec (map col_handle (sd_columns dbsd)) h"
proof (cases "matchLocalizedHandle h")
  case None
  then show ?thesis by (simp add: copyCandidates_def copyCandidates_spec_def localeBase_def)
next
  case (Some m)
  have "\<And>l. (case matchLocalizedHandle l of None \<Rightarrow> False | Some m2 \<Rightarrow> fst m2 = fst m)
             = (localeBase l = Some (fst m))"
    by (simp add: localeBase_def split: option.splits)
  with Some show ?thesis
    by (simp add: copyCandidates_def copyCandidates_spec_def localeBase_def)
qed

lemma filter_action_liveColumnDiffs:
  "filter (\<lambda>d. action d = ''add_column'') (concat (map (liveColumnDiffs db sd) cols)) = []"
  by (auto simp: filter_empty_conv liveColumnDiffs_def split: option.splits sum.splits if_splits)

lemma filter_action_indexDiffs:
  "filter (\<lambda>d. action d = ''add_column'') (indexDiffs sd dbsd) = []"
  by (auto simp: filter_empty_conv indexDiffs_def)

lemma filter_action_addColumnDiffs:
  "filter (\<lambda>d. action d = ''add_column'') (addColumnDiffs sd dbsd) = addColumnDiffs sd dbsd"
  by (auto simp: filter_id_conv addColumnDiffs_def)

lemma liveColumnDiffs_action:
  assumes "d \<in> set (liveColumnDiffs db sd c)" "c \<in> set (sd_columns dbsd)"
  shows "action d = columnAction sd dbsd (col_handle c)"
proof (cases "find (\<lambda>column. col_handle column = col_handle c) (sd_columns sd)")
  case None
  then have "col_handle c \<notin> set (map col_handle (sd_columns sd))"
    by (simp add: find_None_handle)
  with None assms show ?thesis
    by (auto simp: liveColumnDiffs_def columnAction_def)
next
  case (Some column)
  then have "col_handle column = col_handle c" "column \<in> set (sd_columns sd)"
    by (auto dest: find_Some_handle)
  then have "col_handle c \<in> set (map col_handle (sd_columns sd))"
    by (metis image_eqI set_map)
  with Some assms show ?thesis
    by (auto simp: liveColumnDiffs_def columnAction_def split: sum.splits if_splits)
qed

lemma existing_column_action:
  assumes d: "d \<in> set (concat (map (liveColumnDiffs db sd) (sd_columns dbsd))
                         @ addColumnDiffs sd dbsd @ indexDiffs sd dbsd)"
    and h: "columnDiffHandle d = Some h"
  shows "action d = columnAction sd dbsd h"
proof -
  from d consider
    (live) c where "c \<in> set (sd_columns dbsd)" "d \<in> set (liveColumnDiffs db sd c)"
    | (add) "d \<in> set (addColumnDiffs sd dbsd)"
    | (idx) "d \<in> set (indexDiffs sd dbsd)"
    by auto
  then show ?thesis
  proof cases
    case live
    from liveColumnDiffs_collection[OF live(2)] h have "h = col_handle c" by simp
    with liveColumnDiffs_action[OF live(2) live(1)] show ?thesis by simp
  next
    case add
    with h show ?thesis by (auto simp: addColumnDiffs_def columnAction_def)
  next
    case idx
    with h show ?thesis by (auto dest: indexDiffs_collection)
  qed
qed

lemma filter_handle_concat_le1:
  assumes "distinct (map k xs)"
    and "\<And>y d. y \<in> set xs \<Longrightarrow> d \<in> set (g y) \<Longrightarrow> key d = Some (k y)"
    and "\<And>y. y \<in> set xs \<Longrightarrow> length (g y) \<le> 1"
  shows "length (filter (\<lambda>d. key d = Some h) (concat (map g xs))) \<le> 1"
proof (cases "h \<in> set (map k xs)")
  case True
  then obtain x where x: "x \<in> set xs" "k x = h" by auto
  have "filter (\<lambda>d. key d = (Some \<circ> k) x) (concat (map g xs)) = g x"
  proof (rule filter_concat_distinct_key)
    show "distinct (map (Some \<circ> k) xs)"
      using assms(1) by (simp add: distinct_map comp_inj_on_iff[symmetric] inj_on_def)
    show "x \<in> set xs" by (rule x(1))
    show "\<And>y d. y \<in> set xs \<Longrightarrow> d \<in> set (g y) \<Longrightarrow> key d = (Some \<circ> k) y"
      using assms(2) by simp
  qed
  with x assms(3) show ?thesis by simp
next
  case False
  then have "filter (\<lambda>d. key d = Some h) (concat (map g xs)) = []"
    using assms(2) by (auto simp: filter_empty_conv)
  then show ?thesis by simp
qed

lemma liveColumnDiffs_le1: "length (liveColumnDiffs db sd c) \<le> 1"
  by (simp add: liveColumnDiffs_def split: option.splits sum.splits)

lemma map_filter_concat:
  "map g (filter P xs) = concat (map (\<lambda>x. if P x then [g x] else []) xs)"
  by (induction xs) simp_all

lemma addColumnDiffs_le1:
  assumes "distinct (map col_handle (sd_columns sd))"
  shows "length (filter (\<lambda>d. columnDiffHandle d = Some h) (addColumnDiffs sd dbsd)) \<le> 1"
  unfolding addColumnDiffs_def map_filter_concat
  by (rule filter_handle_concat_le1[OF assms]) (simp_all split: if_splits)

lemma liveColumns_le1:
  assumes "distinct (map col_handle cols)"
  shows "length (filter (\<lambda>d. columnDiffHandle d = Some h)
                   (concat (map (liveColumnDiffs db sd) cols))) \<le> 1"
proof (rule filter_handle_concat_le1[OF assms])
  show "\<And>y d. y \<in> set cols \<Longrightarrow> d \<in> set (liveColumnDiffs db sd y) \<Longrightarrow>
          columnDiffHandle d = Some (col_handle y)"
    by (simp add: liveColumnDiffs_collection)
  show "\<And>y. y \<in> set cols \<Longrightarrow> length (liveColumnDiffs db sd y) \<le> 1"
    by (rule liveColumnDiffs_le1)
qed

lemma filter_handle_liveColumns_absent:
  assumes "h \<notin> set (map col_handle cols)"
  shows "filter (\<lambda>d. columnDiffHandle d = Some h) (concat (map (liveColumnDiffs db sd) cols)) = []"
proof -
  have "\<And>c d. c \<in> set cols \<Longrightarrow> d \<in> set (liveColumnDiffs db sd c)
          \<Longrightarrow> columnDiffHandle d \<noteq> Some h"
  proof -
    fix c d assume c: "c \<in> set cols" and d: "d \<in> set (liveColumnDiffs db sd c)"
    from c assms have "col_handle c \<noteq> h" by auto
    with liveColumnDiffs_collection[OF d] show "columnDiffHandle d \<noteq> Some h" by simp
  qed
  then show ?thesis by (auto simp: filter_empty_conv)
qed

section \<open>The worked example, evaluated\<close>

lemma demo_expand_Post: "schemaToSchemaDescription demoContext demoPost = demoPostDesc"
  by code_simp

lemma demo_expand_Tag: "schemaToSchemaDescription demoContext demoTag = demoTagDesc"
  by code_simp

lemma demo_live:
  "databaseDescriptionToSchemaDescription mapIndexTypeToString demoContext demoLive = Inr demoLiveDesc"
  by code_simp

lemma demo_describe: "describeCollection (database demoContext) (s_handle demoPost) = Inr demoLive"
  by (simp add: demoContext_def demoDatabase_def demoPost_def demoLive_def)

lemma demo_exists_Post: "collectionExists (database demoContext) (s_handle demoPost) = Inr True"
  by (simp add: demoContext_def demoDatabase_def demoPost_def)

lemma demo_exists_Tag: "collectionExists (database demoContext) (s_handle demoTag) = Inr False"
  by (simp add: demoContext_def demoDatabase_def demoTag_def)

lemma demo_getSchemaDiff:
  "getSchemaDiff mapIndexTypeToString demoContext [demoPost, demoTag] = Inr demoDiffs"
  by code_simp

lemma demo_distinct: "distinct (map s_handle [demoPost, demoTag])"
  by (simp add: demoPost_def demoTag_def)

lemma twin_exists: "collectionExists (database twinContext) (s_handle twinSchema) = Inr True"
  by (simp add: twinContext_def twinDatabase_def twinSchema_def)

lemma twin_describe: "describeCollection (database twinContext) (s_handle twinSchema) = Inr twinLive"
  by (simp add: twinContext_def twinDatabase_def twinSchema_def twinLive_def)

lemma twin_live:
  "databaseDescriptionToSchemaDescription mapIndexTypeToString twinContext twinLive = Inr twinLiveDesc"
  by code_simp

lemma twin_getSchemaDiff:
  "getSchemaDiff mapIndexTypeToString twinContext [twinSchema] = Inr twinDiffs"
  by code_simp

section \<open>Maps and objects\<close>

lemma map_of_map_set: "map_of (map_set m k v) = (map_of m)(k \<mapsto> v)"
  by (induction m) (auto simp: fun_eq_iff)

lemma keys_map_set:
  "map fst (map_set m k v) = (if k \<in> set (map fst m) then map fst m else map fst m @ [k])"
proof (induction m)
  case Nil
  then show ?case by simp
next
  case (Cons p m)
  obtain k' v' where p: "p = (k', v')" by (cases p)
  show ?case
  proof (cases "k' = k")
    case True
    with p show ?thesis by simp
  next
    case False
    with p Cons.IH show ?thesis by (cases "k \<in> set (map fst m)") simp_all
  qed
qed

lemma distinct_map_set: "distinct (map fst m) \<Longrightarrow> distinct (map fst (map_set m k v))"
  by (simp add: keys_map_set)

lemma keys_map_set_set: "set (map fst (map_set m k v)) = insert k (set (map fst m))"
proof (cases "k \<in> set (map fst m)")
  case True
  then show ?thesis by (simp only: keys_map_set if_True insert_absorb)
next
  case False
  then show ?thesis by (simp only: keys_map_set if_False) simp
qed

lemma map_set_fresh: "k \<notin> set (map fst ob) \<Longrightarrow> map_set ob k v = ob @ [(k, v)]"
  by (induction ob) auto

section \<open>The loops of the expansion\<close>

lemma foldl_append_concat: "foldl (\<lambda>acc x. acc @ g x) acc xs = acc @ concat (map g xs)"
  by (induction xs arbitrary: acc) simp_all

lemma columnsReducer_spec: "columnsReducer locs columns f = columns @ expandField_spec locs f"
  by (simp add: columnsReducer_def expandField_spec_def foldl_snoc_map)

lemma sd_columns_expansion:
  "sd_columns (schemaToSchemaDescription context schema)
   = concat (map (expandField_spec (locales context)) (s_fields schema))"
proof -
  have c: "columnsReducer (locales context) = (\<lambda>acc f. acc @ expandField_spec (locales context) f)"
    by (intro ext) (rule columnsReducer_spec)
  show ?thesis
    by (simp add: schemaToSchemaDescription_def c foldl_append_concat)
qed

lemma fieldIsLocalized_refers:
  "fieldIsLocalized schema name = refersToLocalized (s_fields schema) name"
proof -
  have "(case find (\<lambda>f. f_handle f = name) fs of None \<Rightarrow> False | Some f \<Rightarrow> f_localized f)
        = refersToLocalized fs name" for fs
    by (induction fs) simp_all
  then show ?thesis by (simp add: fieldIsLocalized_def findField_def)
qed

lemma foldl_or: "foldl (\<lambda>b x. b \<or> P x) b0 xs = (b0 \<or> list_ex P xs)"
  by (induction xs arbitrary: b0) auto

lemma index_is_localized:
  "foldl (\<lambda>loc name. loc \<or> fieldIsLocalized schema name) False (obj_keys (si_fields index))
   = list_ex (refersToLocalized (s_fields schema)) (map fst (si_fields index))"
proof -
  have "fieldIsLocalized schema = refersToLocalized (s_fields schema)"
    by (intro ext) (rule fieldIsLocalized_refers)
  then show ?thesis by (simp add: foldl_or obj_keys_def)
qed

lemma obj_assign_ordinary: "ordinaryKey k \<Longrightarrow> obj_assign ob k v = map_set ob k v"
  by (simp add: obj_assign_def ordinaryKey_def obj_keys_def map_set_fresh)

lemma map_lastValue_fresh:
  "k \<notin> set (map fst acc) \<Longrightarrow>
   map (\<lambda>(k', v'). (k', lastValue k' v' ((k, v) # ps))) acc
   = map (\<lambda>(k', v'). (k', lastValue k' v' ps)) acc"
  by (induction acc) auto

lemma map_lastValue_map_set:
  "distinct (map fst acc) \<Longrightarrow>
   map (\<lambda>(k', v'). (k', lastValue k' v' ps)) (map_set acc k v)
   = map (\<lambda>(k', v'). (k', lastValue k' v' ((k, v) # ps))) acc
     @ (if k \<in> set (map fst acc) then [] else [(k, lastValue k v ps)])"
proof (induction acc)
  case Nil
  then show ?case by simp
next
  case (Cons a acc)
  obtain k' v' where a: "a = (k', v')" by (cases a)
  from Cons.prems a have fresh: "k' \<notin> set (map fst acc)" and d: "distinct (map fst acc)" by auto
  show ?case
  proof (cases "k' = k")
    case True
    with fresh have "k \<notin> set (map fst acc)" by simp
    from map_lastValue_fresh[OF this] True show ?thesis by (simp add: a)
  next
    case False
    with Cons.IH[OF d] show ?thesis by (simp add: a)
  qed
qed

lemma filter_mappingOf_step:
  "filter (\<lambda>p. fst p \<notin> set (map fst acc)) (mappingOf ((k, v) # ps))
   = (if k \<in> set (map fst acc) then [] else [(k, lastValue k v ps)])
     @ filter (\<lambda>p. fst p \<notin> insert k (set (map fst acc))) (mappingOf ps)"
  by (auto intro: filter_cong)

lemma foldl_map_set_mappingOf:
  "distinct (map fst acc) \<Longrightarrow>
   foldl (\<lambda>m (k, v). map_set m k v) acc ps
   = map (\<lambda>(k, v). (k, lastValue k v ps)) acc
     @ filter (\<lambda>p. fst p \<notin> set (map fst acc)) (mappingOf ps)"
proof (induction ps arbitrary: acc)
  case Nil
  then show ?case by (simp add: case_prod_beta)
next
  case (Cons p ps)
  obtain k v where p: "p = (k, v)" by (cases p)
  from Cons.prems have d: "distinct (map fst (map_set acc k v))" by (rule distinct_map_set)
  have "foldl (\<lambda>m (k, v). map_set m k v) acc (p # ps)
        = foldl (\<lambda>m (k, v). map_set m k v) (map_set acc k v) ps"
    by (simp add: p)
  also have "\<dots> = map (\<lambda>(k', v'). (k', lastValue k' v' ps)) (map_set acc k v)
                  @ filter (\<lambda>p. fst p \<notin> set (map fst (map_set acc k v))) (mappingOf ps)"
    by (rule Cons.IH[OF d])
  also have "\<dots> = map (\<lambda>(k', v'). (k', lastValue k' v' ((k, v) # ps))) acc
                  @ filter (\<lambda>p. fst p \<notin> set (map fst acc)) (mappingOf ((k, v) # ps))"
    unfolding map_lastValue_map_set[OF Cons.prems] filter_mappingOf_step keys_map_set_set
    by simp
  finally show ?case by (simp only: p)
qed

lemma foldl_obj_assign_ordinary:
  "list_all ordinaryKey (map fst ps) \<Longrightarrow>
   foldl (\<lambda>ob (k, v). obj_assign ob k v) acc ps = foldl (\<lambda>m (k, v). map_set m k v) acc ps"
  by (induction ps arbitrary: acc) (auto simp: obj_assign_ordinary)

lemma assign_all_mappingOf:
  "list_all ordinaryKey (map fst ps) \<Longrightarrow>
   foldl (\<lambda>ob (k, v). obj_assign ob k v) [] ps = mappingOf ps"
  using foldl_map_set_mappingOf[of "[]" ps] by (simp add: foldl_obj_assign_ordinary)

lemma mappingOf_distinct: "distinct (map fst ps) \<Longrightarrow> mappingOf ps = ps"
proof (induction ps)
  case Nil
  then show ?case by simp
next
  case (Cons p ps)
  obtain k v where p: "p = (k, v)" by (cases p)
  from Cons.prems p have fresh: "k \<notin> set (map fst ps)" and d: "distinct (map fst ps)" by auto
  have lv: "lastValue k v' qs = v'" if "k \<notin> set (map fst qs)" for v' and qs :: "(string \<times> 'a) list"
    using that by (induction qs arbitrary: v') auto
  from fresh have "filter (\<lambda>p. fst p \<noteq> k) ps = ps" by (auto simp: filter_id_conv)
  with Cons.IH[OF d] lv[OF fresh] show ?case by (simp add: p)
qed

lemma foldl_obj_assign_map:
  "foldl (\<lambda>ob (name, dir). if P name then obj_assign ob (q name) dir else obj_assign ob name dir)
         acc xs
   = foldl (\<lambda>ob (k, v). obj_assign ob k v) acc
           (map (\<lambda>(name, dir). (if P name then q name else name, dir)) xs)"
  by (induction xs arbitrary: acc) (auto split: prod.splits)

lemma index_columns_assign:
  "foldl (\<lambda>fields (name, dir).
            if fieldIsLocalized schema name then obj_assign fields (name @ ''__'' @ c) dir
            else obj_assign fields name dir) [] flds
   = foldl (\<lambda>ob (k, v). obj_assign ob k v) [] (qualifiedRefs (s_fields schema) c flds)"
proof -
  have q: "qualifiedRefs (s_fields schema) c flds
           = map (\<lambda>(name, dir). (if fieldIsLocalized schema name then name @ ''__'' @ c else name, dir))
                 flds"
    by (simp add: qualifiedRefs_def qualifyRef_def fieldIsLocalized_refers)
  show ?thesis
    unfolding q
    by (rule foldl_obj_assign_map[of "fieldIsLocalized schema" "\<lambda>name. name @ ''__'' @ c"])
qed

lemma indexesReducer_handles:
  "map idx_handle (indexesReducer locs schema indexes index)
   = map idx_handle indexes @ expandedIndexHandles locs schema index"
  by (simp add: indexesReducer_def expandedIndexHandles_def index_is_localized foldl_snoc_map
        comp_def)

lemma sd_index_handles_expansion:
  "map idx_handle (sd_indexes (schemaToSchemaDescription context schema))
   = concat (map (expandedIndexHandles (locales context) schema) (s_indexes schema))"
proof -
  have "map idx_handle (foldl (indexesReducer locs schema) acc xs)
        = map idx_handle acc @ concat (map (expandedIndexHandles locs schema) xs)" for locs acc xs
    by (induction xs arbitrary: acc) (simp_all add: indexesReducer_handles)
  then show ?thesis by (simp add: schemaToSchemaDescription_def)
qed

lemma indexesReducer_spec:
  assumes "list_ex (refersToLocalized (s_fields schema)) (map fst (si_fields index)) \<longrightarrow>
           list_all (\<lambda>c. list_all ordinaryKey
                            (map fst (qualifiedRefs (s_fields schema) c (si_fields index)))) locs"
  shows "indexesReducer locs schema indexes index = indexes @ expandIndex_spec locs schema index"
proof (cases "list_ex (refersToLocalized (s_fields schema)) (map fst (si_fields index))")
  case True
  with assms have ok: "\<And>c. c \<in> set locs \<Longrightarrow>
      list_all ordinaryKey (map fst (qualifiedRefs (s_fields schema) c (si_fields index)))"
    by (simp add: list_all_iff)
  have "map (\<lambda>c. \<lparr>idx_handle = si_handle index @ ''__'' @ c, idx_type = si_type index,
                   idx_columns = foldl (\<lambda>ob (k, v). obj_assign ob k v) []
                                   (qualifiedRefs (s_fields schema) c (si_fields index))\<rparr>) locs
        = map (\<lambda>c. \<lparr>idx_handle = si_handle index @ ''__'' @ c, idx_type = si_type index,
                   idx_columns = mappingOf (qualifiedRefs (s_fields schema) c (si_fields index))\<rparr>)
              locs"
    using ok by (simp add: assign_all_mappingOf)
  with True show ?thesis
    by (simp add: indexesReducer_def expandIndex_spec_def index_is_localized foldl_snoc_map
          index_columns_assign)
next
  case False
  then show ?thesis
    by (simp add: indexesReducer_def expandIndex_spec_def index_is_localized)
qed

lemma foldl_indexesReducer_spec:
  assumes "\<And>index. index \<in> set xs \<Longrightarrow>
             list_ex (refersToLocalized (s_fields schema)) (map fst (si_fields index)) \<longrightarrow>
             list_all (\<lambda>c. list_all ordinaryKey
                              (map fst (qualifiedRefs (s_fields schema) c (si_fields index)))) locs"
  shows "foldl (indexesReducer locs schema) acc xs
         = acc @ concat (map (expandIndex_spec locs schema) xs)"
  using assms
proof (induction xs arbitrary: acc)
  case Nil
  then show ?case by simp
next
  case (Cons x xs)
  have x: "indexesReducer locs schema acc x = acc @ expandIndex_spec locs schema x"
    by (rule indexesReducer_spec) (rule Cons.prems, simp)
  have "foldl (indexesReducer locs schema) (acc @ expandIndex_spec locs schema x) xs
        = (acc @ expandIndex_spec locs schema x) @ concat (map (expandIndex_spec locs schema) xs)"
    by (rule Cons.IH) (rule Cons.prems, simp)
  with x show ?case by simp
qed

lemma sd_indexes_expansion:
  assumes "storableRefs (locales context) schema"
  shows "sd_indexes (schemaToSchemaDescription context schema)
         = concat (map (expandIndex_spec (locales context) schema) (s_indexes schema))"
proof -
  have "foldl (indexesReducer (locales context) schema) [] (s_indexes schema)
        = [] @ concat (map (expandIndex_spec (locales context) schema) (s_indexes schema))"
    by (rule foldl_indexesReducer_spec) (use assms in \<open>simp add: storableRefs_def list_all_iff\<close>)
  then show ?thesis by (simp add: schemaToSchemaDescription_def)
qed

section \<open>The loop of the migration\<close>

lemma sortDiffs_id: "sortDiffs diffs = diffs"
  by (simp add: sortDiffs_def sort_key_const)

lemma reduceE_append:
  "reduceE f s (xs @ ys) = (case reduceE f s xs of Inl e \<Rightarrow> Inl e | Inr s' \<Rightarrow> reduceE f s' ys)"
  by (induction xs arbitrary: s) (simp_all split: sum.splits)

lemma mapE_snoc:
  "mapE f (xs @ [x]) =
   (case mapE f xs of Inl e \<Rightarrow> Inl e
    | Inr ys \<Rightarrow> (case f x of Inl e \<Rightarrow> Inl e | Inr y \<Rightarrow> Inr (ys @ [y])))"
  by (induction xs) (simp_all split: sum.splits)

lemma map_of_None_keys: "(map_of m k = None) = (k \<notin> set (map fst m))"
  by (simp add: map_of_eq_None_iff)

lemma ensureAlter_lookup:
  "map_of (ensureAlter m h) h = Some (case map_of m h of None \<Rightarrow> q_alterCollection h | Some a \<Rightarrow> a)"
  by (auto simp: ensureAlter_def map_of_map_set)

lemma ensureAlter_other: "k \<noteq> h \<Longrightarrow> map_of (ensureAlter m h) k = map_of m k"
  by (auto simp: ensureAlter_def map_of_map_set)

lemma ensureAlter_keys:
  "set (map fst (ensureAlter m h)) = insert h (set (map fst m))"
proof (cases "h \<in> set (map fst m)")
  case True
  then have "map_of m h \<noteq> None" by (simp add: map_of_None_keys)
  with True show ?thesis by (auto simp: ensureAlter_def)
next
  case False
  then have "map_of m h = None" by (simp add: map_of_None_keys)
  with False show ?thesis by (simp add: ensureAlter_def keys_map_set)
qed

lemma ensureAlter_distinct: "distinct (map fst m) \<Longrightarrow> distinct (map fst (ensureAlter m h))"
  by (simp add: ensureAlter_def distinct_map_set)

lemma foldChange_eq:
  "foldChange m h c =
   map_set (ensureAlter m h) h
     (addChange c (case map_of m h of None \<Rightarrow> q_alterCollection h | Some a \<Rightarrow> a))"
  by (simp add: foldChange_def ensureAlter_lookup)

lemma updateAlter_ensure:
  "updateAlter (ensureAlter m h) h c = Inr (foldChange m h c)"
  by (simp add: updateAlter_def foldChange_def ensureAlter_lookup)

lemma mapE_length: "mapE f xs = Inr ys \<Longrightarrow> length ys = length xs"
  by (induction xs arbitrary: ys) (auto split: sum.splits)

lemma step_add_collection:
  assumes "migrationStep P i out st (AddCollection c) = Inr st'"
  shows "\<exists>cq. createCollectionOf c = Inr cq
              \<and> createCollections st' = createCollections st @ [cq]
              \<and> alterCollections st' = alterCollections st"
  using assms by (auto split: sum.splits)

lemma step_other:
  assumes "\<not> isAddCollection d" and "migrationStep P i out st d = Inr st'"
  shows "createCollections st' = createCollections st
       \<and> (\<exists>c. changeTag c = diffTag d
               \<and> alterCollections st' = foldChange (alterCollections st) (diffHandle d) c)"
proof (cases d)
  case (AddCollection c)
  with assms(1) show ?thesis by (simp add: isAddCollection_def)
next
  case (AddColumn c col cands)
  with assms(2) show ?thesis
    by (auto simp: muteNewColumn_def Let_def foldChange_eq ensureAlter_lookup diffTag_def
        diffHandle_def q_column_def split: sum.splits option.splits
        intro!: exI[where x = "ChangeAddColumn a b" for a b])
next
  case (DropColumn c col)
  with assms(2) show ?thesis
    by (auto simp: Let_def updateAlter_ensure diffTag_def diffHandle_def
        split: sum.splits option.splits if_splits
        intro!: exI[where x = "ChangeDropColumn a" for a])
next
  case (AlterColumn c col t)
  with assms(2) show ?thesis
    by (auto simp: Let_def foldChange_eq ensureAlter_lookup diffTag_def diffHandle_def
        split: sum.splits option.splits
        intro!: exI[where x = "ChangeAlterColumn a b" for a b])
next
  case (AddIndex c ix)
  with assms(2) show ?thesis
    by (auto simp: Let_def foldChange_eq ensureAlter_lookup diffTag_def diffHandle_def q_index_def
        split: sum.splits option.splits
        intro!: exI[where x = "ChangeAddIndex a" for a])
next
  case (DropIndex c ix)
  with assms(2) show ?thesis
    by (auto simp: Let_def updateAlter_ensure diffTag_def diffHandle_def
        split: sum.splits option.splits
        intro!: exI[where x = "ChangeDropIndex a" for a])
qed

lemma altersInv_add_collection:
  "altersInv m done \<Longrightarrow> isAddCollection d \<Longrightarrow> altersInv m (done @ [d])"
  by (simp add: altersInv_def)

lemma altersInv_foldChange:
  assumes inv: "altersInv m done" and na: "\<not> isAddCollection d" and tag: "changeTag c = diffTag d"
  shows "altersInv (foldChange m (diffHandle d) c) (done @ [d])"
proof -
  let ?h = "diffHandle d"
  let ?a0 = "case map_of m ?h of None \<Rightarrow> q_alterCollection ?h | Some a \<Rightarrow> a"
  let ?m' = "map_set (ensureAlter m ?h) ?h (addChange c ?a0)"
  from inv have dist: "distinct (map fst m)"
    and look: "\<And>k a. map_of m k = Some a \<Longrightarrow> aq_collection a = k
             \<and> map changeTag (aq_changes a)
               = map diffTag (filter (\<lambda>d. \<not> isAddCollection d \<and> diffHandle d = k) done)"
    and keys: "set (map fst m) = set (map diffHandle (filter (\<lambda>d. \<not> isAddCollection d) done))"
    by (simp_all add: altersInv_def)
  have a0: "aq_collection ?a0 = ?h
            \<and> map changeTag (aq_changes ?a0)
              = map diffTag (filter (\<lambda>d. \<not> isAddCollection d \<and> diffHandle d = ?h) done)"
  proof (cases "map_of m ?h")
    case None
    then have "?h \<notin> set (map fst m)" by (simp add: map_of_None_keys)
    with keys have "?h \<notin> diffHandle ` {x \<in> set done. \<not> isAddCollection x}"
      by simp
    then have "\<And>x. x \<in> set done \<Longrightarrow> \<not> isAddCollection x \<Longrightarrow> diffHandle x \<noteq> ?h"
      by (metis (mono_tags, lifting) image_eqI mem_Collect_eq)
    then have "filter (\<lambda>d. \<not> isAddCollection d \<and> diffHandle d = ?h) done = []"
      by (auto simp: filter_empty_conv)
    with None show ?thesis by (simp add: q_alterCollection_def)
  next
    case (Some a)
    with look[OF Some] show ?thesis by simp
  qed
  have d': "distinct (map fst ?m')"
    by (intro distinct_map_set ensureAlter_distinct dist)
  have l': "\<And>k a. map_of ?m' k = Some a \<Longrightarrow> aq_collection a = k
             \<and> map changeTag (aq_changes a)
               = map diffTag (filter (\<lambda>x. \<not> isAddCollection x \<and> diffHandle x = k) (done @ [d]))"
  proof -
    fix k a assume s: "map_of ?m' k = Some a"
    show "aq_collection a = k
             \<and> map changeTag (aq_changes a)
               = map diffTag (filter (\<lambda>x. \<not> isAddCollection x \<and> diffHandle x = k) (done @ [d]))"
    proof (cases "k = ?h")
      case True
      with s have "a = addChange c ?a0" by (simp add: map_of_map_set)
      with a0 True na tag show ?thesis by (simp add: addChange_def)
    next
      case False
      with s have "map_of m k = Some a" by (simp add: map_of_map_set ensureAlter_other)
      from look[OF this] False show ?thesis by auto
    qed
  qed
  have "set (map fst ?m') = insert ?h (set (map fst m))"
    by (simp only: keys_map_set_set ensureAlter_keys insert_absorb2)
  also have "\<dots> = insert ?h (set (map diffHandle (filter (\<lambda>d. \<not> isAddCollection d) done)))"
    by (simp only: keys)
  also have "\<dots> = set (map diffHandle (filter (\<lambda>d. \<not> isAddCollection d) (done @ [d])))"
    using na by simp
  finally have k': "set (map fst ?m')
      = set (map diffHandle (filter (\<lambda>d. \<not> isAddCollection d) (done @ [d])))" .
  from d' l' k' show ?thesis
    unfolding foldChange_eq altersInv_def by blast
qed

lemma migration_loop_inv:
  assumes "reduceE (migrationStep P i out) st ds = Inr st'"
    and "altersInv (alterCollections st) done"
    and "mapE createCollectionOf (map diff_collection (filter isAddCollection done))
         = Inr (createCollections st)"
  shows "altersInv (alterCollections st') (done @ ds)
       \<and> mapE createCollectionOf (map diff_collection (filter isAddCollection (done @ ds)))
         = Inr (createCollections st')"
  using assms
proof (induction ds arbitrary: st "done")
  case Nil
  then show ?case by simp
next
  case (Cons d ds)
  from Cons.prems(1) obtain st1 where s1: "migrationStep P i out st d = Inr st1"
    and r: "reduceE (migrationStep P i out) st1 ds = Inr st'"
    by (auto split: sum.splits)
  have "altersInv (alterCollections st1) (done @ [d])
        \<and> mapE createCollectionOf (map diff_collection (filter isAddCollection (done @ [d])))
          = Inr (createCollections st1)"
  proof (cases "isAddCollection d")
    case True
    then obtain c where d: "d = AddCollection c" by (cases d) (simp_all add: isAddCollection_def)
    from step_add_collection[OF s1[unfolded d]] obtain cq where
      "createCollectionOf c = Inr cq" "createCollections st1 = createCollections st @ [cq]"
      "alterCollections st1 = alterCollections st" by blast
    with Cons.prems(2,3) True d show ?thesis
      by (simp add: altersInv_add_collection mapE_snoc)
  next
    case False
    from step_other[OF False s1] obtain c where
      "createCollections st1 = createCollections st" "changeTag c = diffTag d"
      "alterCollections st1 = foldChange (alterCollections st) (diffHandle d) c" by blast
    with Cons.prems(2,3) False show ?thesis
      by (simp add: altersInv_foldChange)
  qed
  then have "altersInv (alterCollections st') ((done @ [d]) @ ds)
       \<and> mapE createCollectionOf (map diff_collection (filter isAddCollection ((done @ [d]) @ ds)))
         = Inr (createCollections st')"
    using Cons.IH[OF r] by blast
  then show ?case by simp
qed

lemma altersInv_initial: "altersInv (alterCollections initialState) []"
  by (simp add: altersInv_def initialState_def)

lemma altersInv_values:
  assumes "altersInv m done" "a \<in> set (map_values m)"
  shows "map changeTag (aq_changes a)
         = map diffTag (filter (\<lambda>d. \<not> isAddCollection d \<and> diffHandle d = aq_collection a) done)"
proof -
  from assms(2) obtain k where "(k, a) \<in> set m" by (auto simp: map_values_def)
  moreover from assms(1) have "distinct (map fst m)" by (simp add: altersInv_def)
  ultimately have "map_of m k = Some a" by simp
  with assms(1) show ?thesis unfolding altersInv_def by blast
qed

lemma altersInv_collections:
  assumes "altersInv m done"
  shows "map aq_collection (map_values m) = map fst m"
proof -
  have "\<And>k a. (k, a) \<in> set m \<Longrightarrow> aq_collection a = k"
  proof -
    fix k a assume "(k, a) \<in> set m"
    moreover from assms have "distinct (map fst m)" by (simp add: altersInv_def)
    ultimately have "map_of m k = Some a" by simp
    with assms show "aq_collection a = k" unfolding altersInv_def by blast
  qed
  then show ?thesis by (auto simp: map_values_def)
qed

lemma createQueries_split:
  "createQueries (map CreateCollection cs @ map AlterCollection as) = cs"
  by (induction cs) (simp_all, induction as, simp_all)

lemma alterQueries_split:
  "alterQueries (map CreateCollection cs @ map AlterCollection as) = as"
  by (induction cs) (simp_all, induction as, simp_all)

lemma demo_run:
  "executeSchemaMigration demoOperator demoContext demoDiffs (Some Stdin) (Some Stdout) = demoRun"
  by code_simp

lemma step_abort:
  assumes "promptOf d = Some p"
    and "promptSelection i out (asked st) (fst p) (snd p) = None
         \<or> promptSelection i out (asked st) (fst p) (snd p) = Some ''abort''"
  shows "migrationStep promptSelection (Some i) (Some out) st d = Inl UserAborted"
proof (cases d)
  case (AddColumn c col cands)
  with assms show ?thesis
    by (auto simp: muteNewColumn_def Let_def addColumnChoice_def split: if_splits)
next
  case (DropColumn c col)
  with assms show ?thesis by (auto simp: Let_def)
qed (use assms in simp_all)

lemma run_thrown:
  "reduceE (migrationStep promptSelection stdin stdout) initialState diffs = Inl e \<Longrightarrow>
   executeSchemaMigration promptSelection context diffs stdin stdout
   = \<lparr>thrown = Some e, executed = []\<rparr>"
  by (simp add: executeSchemaMigration_def sortDiffs_id)

lemma run_executed_loop:
  assumes "executed (executeSchemaMigration promptSelection context diffs stdin stdout) \<noteq> []"
  shows "\<exists>st. reduceE (migrationStep promptSelection stdin stdout) initialState diffs = Inr st
              \<and> thrown (executeSchemaMigration promptSelection context diffs stdin stdout) = None"
  using assms by (auto simp: executeSchemaMigration_def sortDiffs_id split: sum.splits)

lemma step_needs_tty:
  assumes "promptOf d \<noteq> None" and "stdin = None \<or> stdout = None"
  shows "\<exists>e. migrationStep promptSelection stdin stdout st d = Inl e"
proof (cases d)
  case (AddColumn c col cands)
  with assms show ?thesis
    by (auto simp: muteNewColumn_def Let_def addColumnChoice_def split: if_splits option.splits)
next
  case (DropColumn c col)
  with assms show ?thesis by (auto split: option.splits)
qed (use assms in simp_all)

lemma loop_needs_tty:
  assumes "d \<in> set diffs" "promptOf d \<noteq> None" "stdin = None \<or> stdout = None"
  shows "\<exists>e. reduceE (migrationStep promptSelection stdin stdout) st diffs = Inl e"
  using assms(1)
proof (induction diffs arbitrary: st)
  case Nil
  then show ?case by simp
next
  case (Cons x xs)
  show ?case
  proof (cases "migrationStep promptSelection stdin stdout st x")
    case (Inl e)
    then show ?thesis by simp
  next
    case (Inr st1)
    with step_needs_tty[OF assms(2,3), of promptSelection st] have "x \<noteq> d" by auto
    with Cons.prems have "d \<in> set xs" by simp
    from Cons.IH[OF this, of st1] Inr show ?thesis by simp
  qed
qed

lemma step_no_tty_collaborator:
  assumes "stdin = None \<or> stdout = None"
  shows "migrationStep P stdin stdout st d = migrationStep P' stdin stdout st d"
proof (cases d)
  case (AddColumn c col cands)
  with assms show ?thesis
    by (auto simp: muteNewColumn_def Let_def addColumnChoice_def split: option.splits)
next
  case (DropColumn c col)
  with assms show ?thesis by (auto split: option.splits)
qed simp_all

section \<open>Collapsing a live description\<close>

lemma mapColumnTypeToFieldType_mapString:
  "mapStringToColumnType t = Inr ct \<Longrightarrow> mapColumnTypeToFieldType ct = Inr (canonicalType t)"
  by (auto simp: mapStringToColumnType_def canonicalType_def split: if_splits)

lemma collapse_columns:
  assumes "list_all2 (\<lambda>q c. c_name q = col_handle c
                             \<and> mapStringToColumnType (col_type c) = Inr (c_type q)) qcols cols"
  shows "reduceE dbColumnsReducer acc qcols
         = Inr (acc @ map (\<lambda>c. \<lparr>col_handle = col_handle c, col_type = canonicalType (col_type c)\<rparr>) cols)"
  using assms
proof (induction qcols cols arbitrary: acc rule: list_all2_induct)
  case Nil
  then show ?case by simp
next
  case (Cons q qs c cs)
  from Cons.hyps(1) have n: "c_name q = col_handle c"
    and t: "mapStringToColumnType (col_type c) = Inr (c_type q)" by simp_all
  from Cons.IH[of "acc @ [\<lparr>col_handle = col_handle c, col_type = canonicalType (col_type c)\<rparr>]"]
    mapColumnTypeToFieldType_mapString[OF t]
  show ?case by (simp add: dbColumnsReducer_def n)
qed

lemma dbIndexColumns_fold:
  "foldl (\<lambda>cols field. if b then (case matchLocalizedHandle (sf_name field) of
                       Some m \<Rightarrow> obj_assign cols (fst m) (directionOrAsc (sf_direction field))
                     | None \<Rightarrow> obj_assign cols (sf_name field) (directionOrAsc (sf_direction field)))
                  else obj_assign cols (sf_name field) (directionOrAsc (sf_direction field)))
      acc fs
   = foldl (\<lambda>ob (k, v). obj_assign ob k v) acc
       (map (\<lambda>f. (if b then (case matchLocalizedHandle (sf_name f) of Some m \<Rightarrow> fst m
                                | None \<Rightarrow> sf_name f) else sf_name f,
                   directionOrAsc (sf_direction f))) fs)"
  by (induction fs arbitrary: acc) (auto split: option.splits)

lemma dbIndexColumns_eq:
  "dbIndexColumns fs =
   foldl (\<lambda>ob (k, v). obj_assign ob k v) []
     (map (\<lambda>f. (if list_ex (\<lambda>f. matchLocalizedHandle (sf_name f) \<noteq> None) fs
                  then (case matchLocalizedHandle (sf_name f) of Some m \<Rightarrow> fst m
                        | None \<Rightarrow> sf_name f)
                  else sf_name f,
                directionOrAsc (sf_direction f))) fs)"
  unfolding dbIndexColumns_def Let_def foldl_or
  by (simp add: dbIndexColumns_fold)

lemma dbIndexColumns_pairs:
  "dbIndexColumns fs
   = dbIndexColumns (sortableFields (map (\<lambda>s. (sf_name s, directionOrAsc (sf_direction s))) fs))"
  by (simp add: dbIndexColumns_eq sortableFields_def q_sort_def comp_def list_ex_iff
        directionOrAsc_def cong: if_cong option.case_cong)

lemma collapse_indexes:
  assumes "list_all2 (\<lambda>q i. ix_name q = idx_handle i
                             \<and> mapStringToIndexType (idx_type i) = Inr (ix_type q)
                             \<and> map (\<lambda>s. (sf_name s, directionOrAsc (sf_direction s))) (ix_columns q)
                               = idx_columns i) qidxs idxs"
  shows "map idx_handle (foldl (dbIndexesReducer ev) acc qidxs)
         = map idx_handle acc @ map idx_handle idxs"
    and "map idx_columns (foldl (dbIndexesReducer ev) acc qidxs)
         = map idx_columns acc
           @ map (\<lambda>i. dbIndexColumns (sortableFields (idx_columns i))) idxs"
  using assms
proof (induction qidxs idxs arbitrary: acc rule: list_all2_induct)
  case Nil
  {
    case 1
    then show ?case by simp
  next
    case 2
    then show ?case by simp
  }
next
  case (Cons q qs i rest)
  from Cons.hyps(1) have n: "ix_name q = idx_handle i"
    and c: "map (\<lambda>s. (sf_name s, directionOrAsc (sf_direction s))) (ix_columns q) = idx_columns i"
    by simp_all
  have p: "dbIndexColumns (ix_columns q) = dbIndexColumns (sortableFields (idx_columns i))"
    using dbIndexColumns_pairs[of "ix_columns q"] by (simp only: c)
  {
    case 1
    from Cons.IH(1)[of "dbIndexesReducer ev acc q"] show ?case
      by (simp add: dbIndexesReducer_def n)
  next
    case 2
    from Cons.IH(2)[of "dbIndexesReducer ev acc q"] show ?case
      by (simp add: dbIndexesReducer_def p)
  }
qed

lemma isLocaleCode_length: "isLocaleCode c \<Longrightarrow> length c = 2 \<or> length c = 5"
  by (induction c rule: isLocaleCode.induct) simp_all

lemma isLocaleCode_last: "isLocaleCode c \<Longrightarrow> c \<noteq> [] \<and> isLetter (last c)"
  by (induction c rule: isLocaleCode.induct) simp_all

lemma isArrayIndex_digits: "isArrayIndex k \<Longrightarrow> list_all isDigit k"
  by (cases k) (simp_all add: isArrayIndex_def)

lemma qualified_ordinary:
  assumes "isLocaleCode c"
  shows "ordinaryKey (name @ ''__'' @ c)"
proof -
  from isLocaleCode_last[OF assms] have ne: "c \<noteq> []" and l: "isLetter (last c)" by simp_all
  from ne have "last (name @ ''__'' @ c) = last c" by simp
  moreover have "\<not> isLetter (last ''__proto__'')" by (simp add: isLetter_def)
  ultimately have a: "name @ ''__'' @ c \<noteq> ''__proto__''" using l by metis
  have "\<not> isDigit CHR ''_''" by (simp add: isDigit_def)
  then have "\<not> list_all isDigit (name @ ''__'' @ c)" by simp
  then have b: "\<not> isArrayIndex (name @ ''__'' @ c)"
    using isArrayIndex_digits by blast
  from a b show ?thesis by (simp add: ordinaryKey_def)
qed

lemma matchSuffix_qualified:
  assumes "name \<noteq> []" "list_all isHandleChar name" "isLocaleCode c" "length c = n"
  shows "matchSuffix n (name @ ''__'' @ c) = Some (name, c)"
  using assms by (simp add: matchSuffix_def)

lemma matchSuffix_2_of_5:
  assumes "isLocaleCode c" "length c = 5"
  shows "matchSuffix 2 (name @ ''__'' @ c) = None"
proof -
  from assms obtain a b h x y where c: "c = [a, b, h, x, y]" and h: "h = CHR ''-''"
    by (induction c rule: isLocaleCode.induct) simp_all
  have "drop (length (name @ ''__'' @ c) - 4) (name @ ''__'' @ c) = [b, h, x, y]"
    by (simp add: c)
  then show ?thesis
    by (simp add: matchSuffix_def Let_def h c)
qed

lemma matchLocalizedHandle_qualified:
  assumes "name \<noteq> []" "list_all isHandleChar name" "isLocaleCode c"
  shows "matchLocalizedHandle (name @ ''__'' @ c) = Some (name, c)"
proof -
  from isLocaleCode_length[OF assms(3)] show ?thesis
  proof
    assume "length c = 2"
    from matchSuffix_qualified[OF assms this] show ?thesis
      by (simp add: matchLocalizedHandle_def)
  next
    assume l: "length c = 5"
    from matchSuffix_qualified[OF assms l] matchSuffix_2_of_5[OF assms(3) l, of name]
    show ?thesis by (simp add: matchLocalizedHandle_def)
  qed
qed

lemma assign_all_distinct:
  assumes "distinct (map fst ps)" and "list_all ordinaryKey (map fst ps)"
  shows "foldl (\<lambda>ob (k, v). obj_assign ob k v) [] ps = ps"
  using assign_all_mappingOf[OF assms(2)] mappingOf_distinct[OF assms(1)] by simp

lemma collapse_plain_index:
  assumes "distinct (map fst flds)"
    and "list_all ordinaryKey (map fst flds)"
    and "list_all (\<lambda>name. matchLocalizedHandle name = None) (map fst flds)"
  shows "dbIndexColumns (sortableFields flds) = flds"
proof -
  have none: "\<And>p. p \<in> set flds \<Longrightarrow> matchLocalizedHandle (fst p) = None"
    using assms(3) by (auto simp: list_all_iff)
  have "\<not> list_ex (\<lambda>f. matchLocalizedHandle (sf_name f) \<noteq> None) (sortableFields flds)"
    using none by (auto simp: list_ex_iff sortableFields_def q_sort_def)
  then have "dbIndexColumns (sortableFields flds)
        = foldl (\<lambda>ob (k, v). obj_assign ob k v) []
            (map (\<lambda>f. (sf_name f, directionOrAsc (sf_direction f))) (sortableFields flds))"
    by (simp add: dbIndexColumns_eq)
  also have "map (\<lambda>f. (sf_name f, directionOrAsc (sf_direction f))) (sortableFields flds) = flds"
    by (induction flds) (auto simp: sortableFields_def q_sort_def directionOrAsc_def)
  finally show ?thesis using assms(1,2) by (simp add: assign_all_distinct)
qed

lemma qualified_keys_distinct:
  assumes d: "distinct (map fst flds)"
    and ok: "\<And>p. p \<in> set flds \<Longrightarrow>
               (if P (fst p) then fst p \<noteq> [] \<and> list_all isHandleChar (fst p)
                else matchLocalizedHandle (fst p) = None)"
    and c: "isLocaleCode c"
  shows "distinct (map (\<lambda>p. if P (fst p) then fst p @ ''__'' @ c else fst p) flds)"
proof -
  have "inj_on (\<lambda>p. if P (fst p) then fst p @ ''__'' @ c else fst p) (set flds)"
  proof (rule inj_onI)
    fix p q assume p: "p \<in> set flds" and q: "q \<in> set flds"
      and e: "(if P (fst p) then fst p @ ''__'' @ c else fst p)
              = (if P (fst q) then fst q @ ''__'' @ c else fst q)"
    have m: "\<And>r. r \<in> set flds \<Longrightarrow> P (fst r) \<Longrightarrow>
               matchLocalizedHandle (fst r @ ''__'' @ c) = Some (fst r, c)"
    proof -
      fix r assume r: "r \<in> set flds" and pr: "P (fst r)"
      from ok[OF r] pr have "fst r \<noteq> []" "list_all isHandleChar (fst r)" by simp_all
      then show "matchLocalizedHandle (fst r @ ''__'' @ c) = Some (fst r, c)"
        using c by (rule matchLocalizedHandle_qualified)
    qed
    have n: "\<And>r. r \<in> set flds \<Longrightarrow> \<not> P (fst r) \<Longrightarrow> matchLocalizedHandle (fst r) = None"
    proof -
      fix r assume r: "r \<in> set flds" and pr: "\<not> P (fst r)"
      from ok[OF r] pr show "matchLocalizedHandle (fst r) = None" by simp
    qed
    have "fst p = fst q"
    proof (cases "P (fst p)")
      case True
      show ?thesis
      proof (cases "P (fst q)")
        case True
        with \<open>P (fst p)\<close> e show ?thesis by simp
      next
        case False
        with \<open>P (fst p)\<close> e m[OF p] n[OF q] show ?thesis by simp
      qed
    next
      case False
      show ?thesis
      proof (cases "P (fst q)")
        case True
        with \<open>\<not> P (fst p)\<close> e m[OF q] n[OF p] show ?thesis by simp
      next
        case False
        with \<open>\<not> P (fst p)\<close> e show ?thesis by simp
      qed
    qed
    with d p q show "p = q" by (meson eq_key_imp_eq_value prod.expand distinct_map inj_onD)
  qed
  moreover from d have "distinct flds" by (simp add: distinct_map)
  ultimately show ?thesis by (simp add: distinct_map)
qed

lemma qualifiedRefs_keys:
  "map fst (qualifiedRefs fs c flds)
   = map (\<lambda>p. if refersToLocalized fs (fst p) then fst p @ ''__'' @ c else fst p) flds"
  by (induction flds) (auto simp: qualifiedRefs_def qualifyRef_def)

lemma qualifiedRefs_ordinary:
  assumes ok: "\<And>p. p \<in> set flds \<Longrightarrow> ordinaryKey (fst p)" and c: "isLocaleCode c"
  shows "list_all ordinaryKey (map fst (qualifiedRefs fs c flds))"
  unfolding qualifiedRefs_keys list_all_iff
  using ok qualified_ordinary[OF c] by auto

lemma collapse_localized_copy:
  assumes d: "distinct (map fst flds)"
    and ord: "\<And>p. p \<in> set flds \<Longrightarrow> ordinaryKey (fst p)"
    and ok: "\<And>p. p \<in> set flds \<Longrightarrow>
               (if refersToLocalized fs (fst p) then fst p \<noteq> [] \<and> list_all isHandleChar (fst p)
                else matchLocalizedHandle (fst p) = None)"
    and c: "isLocaleCode c"
    and ex: "list_ex (refersToLocalized fs) (map fst flds)"
  shows "dbIndexColumns (sortableFields (mappingOf (qualifiedRefs fs c flds))) = flds"
proof -
  let ?q = "qualifiedRefs fs c flds"
  have "distinct (map fst ?q)"
    unfolding qualifiedRefs_keys by (rule qualified_keys_distinct[OF d ok c])
  then have nm: "mappingOf ?q = ?q" by (rule mappingOf_distinct)
  have m: "\<And>p. p \<in> set flds \<Longrightarrow>
             (case matchLocalizedHandle (qualifyRef fs c (fst p)) of Some m \<Rightarrow> fst m
              | None \<Rightarrow> qualifyRef fs c (fst p)) = fst p"
  proof -
    fix p assume p: "p \<in> set flds"
    show "(case matchLocalizedHandle (qualifyRef fs c (fst p)) of Some m \<Rightarrow> fst m
              | None \<Rightarrow> qualifyRef fs c (fst p)) = fst p"
    proof (cases "refersToLocalized fs (fst p)")
      case True
      with ok[OF p] have "fst p \<noteq> []" "list_all isHandleChar (fst p)" by simp_all
      from matchLocalizedHandle_qualified[OF this c] True show ?thesis
        by (simp add: qualifyRef_def)
    next
      case False
      with ok[OF p] show ?thesis by (simp add: qualifyRef_def)
    qed
  qed
  have sq: "sortableFields ?q = map (\<lambda>p. q_sort (qualifyRef fs c (fst p)) (snd p)) flds"
    by (induction flds) (auto simp: sortableFields_def qualifiedRefs_def)
  from ex obtain p where p: "p \<in> set flds" and lp: "refersToLocalized fs (fst p)"
    by (auto simp: list_ex_iff)
  from ok[OF p] lp have "fst p \<noteq> []" "list_all isHandleChar (fst p)" by simp_all
  from matchLocalizedHandle_qualified[OF this c] lp
  have mp: "matchLocalizedHandle (qualifyRef fs c (fst p)) \<noteq> None" by (simp add: qualifyRef_def)
  have "list_ex (\<lambda>f. matchLocalizedHandle (sf_name f) \<noteq> None)
          (map (\<lambda>p. q_sort (qualifyRef fs c (fst p)) (snd p)) flds)"
    unfolding list_ex_iff set_map
    by (rule bexI[of _ "q_sort (qualifyRef fs c (fst p)) (snd p)"])
       (use mp p in \<open>simp_all add: q_sort_def\<close>)
  then have any: "list_ex (\<lambda>f. matchLocalizedHandle (sf_name f) \<noteq> None) (sortableFields ?q)"
    by (simp only: sq)
  have "map (\<lambda>f. (case matchLocalizedHandle (sf_name f) of Some m \<Rightarrow> fst m | None \<Rightarrow> sf_name f,
                   directionOrAsc (sf_direction f))) (sortableFields ?q)
        = map (\<lambda>p. (case matchLocalizedHandle (qualifyRef fs c (fst p)) of Some m \<Rightarrow> fst m
                      | None \<Rightarrow> qualifyRef fs c (fst p), snd p)) flds"
    unfolding sq by (simp add: q_sort_def directionOrAsc_def comp_def split: option.splits)
  also have "\<dots> = flds"
    using m by (simp add: map_idI)
  finally have restored: "map (\<lambda>f. (case matchLocalizedHandle (sf_name f) of Some m \<Rightarrow> fst m
                                  | None \<Rightarrow> sf_name f,
                   directionOrAsc (sf_direction f))) (sortableFields ?q) = flds" .
  have "dbIndexColumns (sortableFields ?q) = foldl (\<lambda>ob (k, v). obj_assign ob k v) [] flds"
    using any by (simp add: dbIndexColumns_eq restored cong: if_cong)
  also have "\<dots> = flds"
    by (rule assign_all_distinct[OF d]) (use ord in \<open>simp add: list_all_iff\<close>)
  finally show ?thesis by (simp only: nm)
qed

lemma collapse_expanded_index:
  assumes locs: "list_all isLocaleCode locs" and ready: "indexFieldsReady schema (si_fields index)"
  shows "map (\<lambda>i. dbIndexColumns (sortableFields (idx_columns i)))
             (expandIndex_spec locs schema index)
         = logicalIndexColumns locs schema index"
proof -
  from ready have d: "distinct (map fst (si_fields index))"
    and ord: "\<And>p. p \<in> set (si_fields index) \<Longrightarrow> ordinaryKey (fst p)"
    and ok: "\<And>p. p \<in> set (si_fields index) \<Longrightarrow>
               (if refersToLocalized (s_fields schema) (fst p)
                then fst p \<noteq> [] \<and> list_all isHandleChar (fst p)
                else matchLocalizedHandle (fst p) = None)"
    by (auto simp: indexFieldsReady_def list_all_iff)
  show ?thesis
  proof (cases "list_ex (refersToLocalized (s_fields schema)) (map fst (si_fields index))")
    case True
    have "\<And>c. c \<in> set locs \<Longrightarrow>
            dbIndexColumns (sortableFields
              (mappingOf (qualifiedRefs (s_fields schema) c (si_fields index))))
            = si_fields index"
    proof -
      fix c assume "c \<in> set locs"
      with locs have "isLocaleCode c" by (simp add: list_all_iff)
      from collapse_localized_copy[OF d ord ok this True] show
        "dbIndexColumns (sortableFields
              (mappingOf (qualifiedRefs (s_fields schema) c (si_fields index))))
            = si_fields index" .
    qed
    with True show ?thesis
      by (simp add: expandIndex_spec_def logicalIndexColumns_def)
  next
    case False
    then have "\<And>p. p \<in> set (si_fields index) \<Longrightarrow> \<not> refersToLocalized (s_fields schema) (fst p)"
      by (auto simp: list_ex_iff)
    with ok have n: "list_all (\<lambda>name. matchLocalizedHandle name = None) (map fst (si_fields index))"
      by (auto simp: list_all_iff)
    from ord have o: "list_all ordinaryKey (map fst (si_fields index))"
      by (simp add: list_all_iff)
    from collapse_plain_index[OF d o n] False show ?thesis
      by (simp add: expandIndex_spec_def logicalIndexColumns_def)
  qed
qed

lemma ready_storable:
  assumes "collapseReady context schema"
  shows "storableRefs (locales context) schema"
proof -
  have "list_all ordinaryKey (map fst (qualifiedRefs (s_fields schema) c (si_fields index)))"
    if i: "index \<in> set (s_indexes schema)" and c: "c \<in> set (locales context)" for index c
  proof (rule qualifiedRefs_ordinary)
    from assms c show "isLocaleCode c" by (simp add: collapseReady_def list_all_iff)
    fix p assume "p \<in> set (si_fields index)"
    with assms i show "ordinaryKey (fst p)"
      by (auto simp: collapseReady_def indexFieldsReady_def list_all_iff)
  qed
  then show ?thesis by (simp add: storableRefs_def list_all_iff)
qed

lemma collapse_all_index_columns:
  assumes "collapseReady context schema"
  shows "map (\<lambda>i. dbIndexColumns (sortableFields (idx_columns i)))
             (sd_indexes (schemaToSchemaDescription context schema))
         = concat (map (logicalIndexColumns (locales context) schema) (s_indexes schema))"
proof -
  from assms have locs: "list_all isLocaleCode (locales context)"
    and ready: "\<And>index. index \<in> set (s_indexes schema) \<Longrightarrow>
                  indexFieldsReady schema (si_fields index)"
    by (auto simp: collapseReady_def list_all_iff)
  have e: "sd_indexes (schemaToSchemaDescription context schema)
           = concat (map (expandIndex_spec (locales context) schema) (s_indexes schema))"
    by (rule sd_indexes_expansion[OF ready_storable[OF assms]])
  have "map (\<lambda>i. dbIndexColumns (sortableFields (idx_columns i)))
             (concat (map (expandIndex_spec (locales context) schema) (s_indexes schema)))
        = concat (map (\<lambda>index. map (\<lambda>i. dbIndexColumns (sortableFields (idx_columns i)))
                                    (expandIndex_spec (locales context) schema index))
                      (s_indexes schema))"
    by (simp add: map_concat comp_def)
  also have "\<dots> = concat (map (logicalIndexColumns (locales context) schema) (s_indexes schema))"
    using collapse_expanded_index[OF locs ready]
    by (metis (mono_tags, lifting) map_eq_conv)
  finally show ?thesis by (simp only: e)
qed

lemma collapse_live:
  assumes "liveEquals live (schemaToSchemaDescription context schema)"
  shows "databaseDescriptionToSchemaDescription ev context live
         = Inr \<lparr>sd_handle = s_handle schema,
                sd_columns = map (\<lambda>c. \<lparr>col_handle = col_handle c,
                                         col_type = canonicalType (col_type c)\<rparr>)
                                 (sd_columns (schemaToSchemaDescription context schema)),
                sd_indexes = foldl (dbIndexesReducer ev) [] (d_indexes live)\<rparr>"
proof -
  from assms have h: "d_collection live = s_handle schema"
    and c: "list_all2 (\<lambda>q c. c_name q = col_handle c
                             \<and> mapStringToColumnType (col_type c) = Inr (c_type q))
              (d_columns live) (sd_columns (schemaToSchemaDescription context schema))"
    by (simp_all add: liveEquals_def schemaToSchemaDescription_def)
  from collapse_columns[OF c, of "[]"] show ?thesis
    by (simp add: databaseDescriptionToSchemaDescription_def h)
qed

section \<open>Claims about the diff engine\<close>

text \<open>
  Claim C1. For a declared collection that exists in the backend and a live column whose
  handle also names a declared column (the first one of that handle, as \<^verbatim>\<open>find\<close>
  returns it): when \<^verbatim>\<open>compareTypes\<close> of the mapped declared type and the mapped live
  type lacks \<open>Castable\<close>, the column-level diffs of that collection for that handle are
  exactly one \<^verbatim>\<open>alter_column\<close>; when it includes \<open>Castable\<close>, there is none. Both
  type mappings succeed whenever the run does. Declared collections have distinct handles
  and the live description has distinct column names.
\<close>

theorem getSchemaDiff_alter_column:
  assumes run: "getSchemaDiff ev context schemas = Inr diffs"
    and dist: "distinct (map s_handle schemas)" and mem: "schema \<in> set schemas"
    and ex: "collectionExists (database context) (s_handle schema) = Inr True"
    and de: "describeCollection (database context) (s_handle schema) = Inr desc"
    and db: "databaseDescriptionToSchemaDescription ev context desc = Inr dbSchemaDesc"
    and live: "distinct (map col_handle (sd_columns dbSchemaDesc))"
    and col: "dbColumn \<in> set (sd_columns dbSchemaDesc)"
    and fnd: "find (\<lambda>column. col_handle column = col_handle dbColumn)
                (sd_columns (schemaToSchemaDescription context schema)) = Some column"
  shows "\<exists>declared live.
           mapStringToColumnType (col_type column) = Inr declared
         \<and> mapStringToColumnType (col_type dbColumn) = Inr live
         \<and> filter (\<lambda>d. sd_handle (diff_collection d) = s_handle schema
                        \<and> columnDiffHandle d = Some (col_handle dbColumn)) diffs
           = (if Castable \<notin> compareTypes (database context) declared live
              then [AlterColumn (schemaToSchemaDescription context schema) dbColumn (col_type column)]
              else [])"
proof -
  let ?sd = "schemaToSchemaDescription context schema"
  from getSchemaDiff_liveColumn_ok[OF run mem ex de db col] fnd
  obtain declared live where
    t1: "mapStringToColumnType (col_type column) = Inr declared" and
    t2: "mapStringToColumnType (col_type dbColumn) = Inr live"
    by (blast dest: liveColumnStep_types)
  have hl: "col_handle dbColumn \<in> set (map col_handle (sd_columns dbSchemaDesc))"
    using col by simp
  have "filter (\<lambda>d. sd_handle (diff_collection d) = s_handle schema
                    \<and> columnDiffHandle d = Some (col_handle dbColumn)) diffs
        = filter (\<lambda>d. columnDiffHandle d = Some (col_handle dbColumn)) (schemaDiffs ev context schema)"
    by (rule filter_conj_piece[OF getSchemaDiff_piece[OF run dist mem]])
  also have "\<dots> = liveColumnDiffs (database context) ?sd dbColumn"
    by (simp add: schemaDiffs_existing[OF ex de db] filter_handle_liveColumnDiffs[OF live col]
        filter_handle_addColumnDiffs_live[OF hl] filter_handle_indexDiffs)
  also have "\<dots> = (if Castable \<notin> compareTypes (database context) declared live
              then [AlterColumn ?sd dbColumn (col_type column)] else [])"
    by (rule liveColumnDiffs_matched[OF fnd t1 t2])
  finally show ?thesis using t1 t2 by blast
qed

theorem getSchemaDiff_alter_column_witness:
  "filter (\<lambda>d. sd_handle (diff_collection d) = ''Post'' \<and> columnDiffHandle d = Some ''views'') demoDiffs
     = [AlterColumn demoPostDesc \<lparr>col_handle = ''views'', col_type = ''text''\<rparr> ''int'']
   \<and> filter (\<lambda>d. sd_handle (diff_collection d) = ''Post'' \<and> columnDiffHandle d = Some ''title__en'') demoDiffs
     = []"
proof -
  have live: "distinct (map col_handle (sd_columns demoLiveDesc))"
    by (simp add: demoLiveDesc_def)
  have c1: "\<lparr>col_handle = ''views'', col_type = ''text''\<rparr> \<in> set (sd_columns demoLiveDesc)"
    by (simp add: demoLiveDesc_def)
  have f1: "find (\<lambda>column. col_handle column = col_handle \<lparr>col_handle = ''views'', col_type = ''text''\<rparr>)
              (sd_columns (schemaToSchemaDescription demoContext demoPost))
            = Some \<lparr>col_handle = ''views'', col_type = ''int''\<rparr>"
    by (simp add: demo_expand_Post demoPostDesc_def)
  have c2: "\<lparr>col_handle = ''title__en'', col_type = ''text''\<rparr> \<in> set (sd_columns demoLiveDesc)"
    by (simp add: demoLiveDesc_def)
  have f2: "find (\<lambda>column. col_handle column = col_handle \<lparr>col_handle = ''title__en'', col_type = ''text''\<rparr>)
              (sd_columns (schemaToSchemaDescription demoContext demoPost))
            = Some \<lparr>col_handle = ''title__en'', col_type = ''text''\<rparr>"
    by (simp add: demo_expand_Post demoPostDesc_def)
  have cmp: "compareTypes (database demoContext) = (\<lambda>a b. if a = b then {Equal, Castable, Comparable} else {})"
    by (simp add: demoContext_def demoDatabase_def)
  have hP: "s_handle demoPost = ''Post''" by (simp add: demoPost_def)
  from getSchemaDiff_alter_column[OF demo_getSchemaDiff demo_distinct _ demo_exists_Post demo_describe demo_live live c1 f1]
       getSchemaDiff_alter_column[OF demo_getSchemaDiff demo_distinct _ demo_exists_Post demo_describe demo_live live c2 f2]
  show ?thesis
    by (simp add: hP cmp demo_expand_Post mapStringToColumnType_def)
qed

text \<open>
  Claim C5. For a declared collection that \<^verbatim>\<open>collectionExists\<close> reports as
  nonexistent, the diffs of that collection are exactly one \<^verbatim>\<open>add_collection\<close> that
  carries the expanded description, with no column-level or index-level diff; and
  \<^verbatim>\<open>describeCollection\<close> is not consulted for it: whatever it would answer for that
  handle, the run returns the same diffs. Declared collections have distinct handles.
\<close>

theorem getSchemaDiff_add_collection:
  assumes run: "getSchemaDiff ev context schemas = Inr diffs"
    and dist: "distinct (map s_handle schemas)" and mem: "schema \<in> set schemas"
    and ex: "collectionExists (database context) (s_handle schema) = Inr False"
  shows "filter (\<lambda>d. sd_handle (diff_collection d) = s_handle schema) diffs
           = [AddCollection (schemaToSchemaDescription context schema)]
         \<and> getSchemaDiff ev
             (context\<lparr>database := (database context)\<lparr>describeCollection :=
                 (describeCollection (database context))(s_handle schema := answer)\<rparr>\<rparr>) schemas
           = Inr diffs"
proof -
  have "getSchemaDiff ev
             (context\<lparr>database := (database context)\<lparr>describeCollection :=
                 (describeCollection (database context))(s_handle schema := answer)\<rparr>\<rparr>) schemas
        = getSchemaDiff ev context schemas"
    unfolding getSchemaDiff_def
    by (rule reduceE_cong) (rule diffSchema_describe_irrelevant[OF ex], simp)
  with getSchemaDiff_piece[OF run dist mem] schemaDiffs_missing[OF ex] run
  show ?thesis by simp
qed

theorem getSchemaDiff_add_collection_witness:
  "filter (\<lambda>d. sd_handle (diff_collection d) = ''Tag'') demoDiffs = [AddCollection demoTagDesc]
   \<and> getSchemaDiff mapIndexTypeToString
        (demoContext\<lparr>database := (database demoContext)\<lparr>describeCollection :=
            (describeCollection (database demoContext))(''Tag'' := Inr demoLive)\<rparr>\<rparr>)
        [demoPost, demoTag] = Inr demoDiffs"
proof -
  have hT: "s_handle demoTag = ''Tag''" by (simp add: demoTag_def)
  from getSchemaDiff_add_collection[OF demo_getSchemaDiff demo_distinct _ demo_exists_Tag, of "Inr demoLive"]
  show ?thesis by (simp add: hT demo_expand_Tag)
qed

text \<open>
  Claim C6. For a declared collection that exists, the \<^verbatim>\<open>add_column\<close> diffs of that
  collection are, in order, one for every declared column whose handle names no live
  column and no other; the copy candidates of each are the live handles that share its
  locale base when its handle matches the localized pattern, and all live handles
  otherwise. Declared collections have distinct handles.
\<close>

theorem getSchemaDiff_add_column:
  assumes run: "getSchemaDiff ev context schemas = Inr diffs"
    and dist: "distinct (map s_handle schemas)" and mem: "schema \<in> set schemas"
    and ex: "collectionExists (database context) (s_handle schema) = Inr True"
    and de: "describeCollection (database context) (s_handle schema) = Inr desc"
    and db: "databaseDescriptionToSchemaDescription ev context desc = Inr dbSchemaDesc"
  shows "filter (\<lambda>d. sd_handle (diff_collection d) = s_handle schema \<and> action d = ''add_column'') diffs
         = map (\<lambda>column. AddColumn (schemaToSchemaDescription context schema) column
                   (copyCandidates_spec (map col_handle (sd_columns dbSchemaDesc)) (col_handle column)))
               (filter (\<lambda>column. col_handle column \<notin> set (map col_handle (sd_columns dbSchemaDesc)))
                       (sd_columns (schemaToSchemaDescription context schema)))"
proof -
  have "filter (\<lambda>d. sd_handle (diff_collection d) = s_handle schema \<and> action d = ''add_column'') diffs
        = filter (\<lambda>d. action d = ''add_column'') (schemaDiffs ev context schema)"
    by (rule filter_conj_piece[OF getSchemaDiff_piece[OF run dist mem]])
  also have "\<dots> = addColumnDiffs (schemaToSchemaDescription context schema) dbSchemaDesc"
    by (simp add: schemaDiffs_existing[OF ex de db] filter_action_liveColumnDiffs
        filter_action_indexDiffs filter_action_addColumnDiffs)
  finally show ?thesis by (simp add: addColumnDiffs_def copyCandidates_spec_eq)
qed

theorem getSchemaDiff_add_column_witness:
  "filter (\<lambda>d. sd_handle (diff_collection d) = ''Post'' \<and> action d = ''add_column'') demoDiffs
   = [AddColumn demoPostDesc \<lparr>col_handle = ''title__fr'', col_type = ''text''\<rparr> [''title__en''],
      AddColumn demoPostDesc \<lparr>col_handle = ''summary'', col_type = ''text''\<rparr>
        [''title__en'', ''views'', ''legacy'']]"
proof -
  have hP: "s_handle demoPost = ''Post''" by (simp add: demoPost_def)
  have c1: "copyCandidates_spec [''title__en'', ''views'', ''legacy''] ''title__fr'' = [''title__en'']"
    by code_simp
  have c2: "copyCandidates_spec [''title__en'', ''views'', ''legacy''] ''summary''
            = [''title__en'', ''views'', ''legacy'']"
    by code_simp
  from getSchemaDiff_add_column[OF demo_getSchemaDiff demo_distinct _ demo_exists_Post demo_describe demo_live]
  show ?thesis
    by (simp add: hP demo_expand_Post demoPostDesc_def[symmetric] c1 c2)
      (simp add: demoPostDesc_def demoLiveDesc_def c1 c2)
qed

text \<open>
  Claim C9, as stated, fails: for the schema that declares the localized field
  \<^verbatim>\<open>title\<close> beside the field \<^verbatim>\<open>title__en\<close>, with the locale en and a live
  collection that holds only the column \<^verbatim>\<open>views\<close>, the expansion has two columns with
  the handle \<^verbatim>\<open>title__en\<close> and \<^verbatim>\<open>getSchemaDiff\<close> emits two \<^verbatim>\<open>add_column\<close> diffs
  for that handle.
\<close>

theorem getSchemaDiff_two_diffs_counterexample:
  "distinct (map f_handle (s_fields twinSchema))
   \<and> collectionExists (database twinContext) (s_handle twinSchema) = Inr True
   \<and> getSchemaDiff mapIndexTypeToString twinContext [twinSchema]
     = Inr [AddColumn twinDesc \<lparr>col_handle = ''title__en'', col_type = ''text''\<rparr> [],
            AddColumn twinDesc \<lparr>col_handle = ''title__en'', col_type = ''int''\<rparr> []]
   \<and> length (filter (\<lambda>d. sd_handle (diff_collection d) = ''Post''
                          \<and> columnDiffHandle d = Some ''title__en'')
               [AddColumn twinDesc \<lparr>col_handle = ''title__en'', col_type = ''text''\<rparr> [],
                AddColumn twinDesc \<lparr>col_handle = ''title__en'', col_type = ''int''\<rparr> []]) = 2"
proof -
  have a: "distinct (map f_handle (s_fields twinSchema))" by (simp add: twinSchema_def)
  have b: "collectionExists (database twinContext) (s_handle twinSchema) = Inr True"
    by (simp add: twinContext_def twinDatabase_def twinSchema_def)
  have c: "getSchemaDiff mapIndexTypeToString twinContext [twinSchema]
     = Inr [AddColumn twinDesc \<lparr>col_handle = ''title__en'', col_type = ''text''\<rparr> [],
            AddColumn twinDesc \<lparr>col_handle = ''title__en'', col_type = ''int''\<rparr> []]"
    using twin_getSchemaDiff by (simp add: twinDiffs_def)
  have d: "length (filter (\<lambda>d. sd_handle (diff_collection d) = ''Post''
                          \<and> columnDiffHandle d = Some ''title__en'')
               [AddColumn twinDesc \<lparr>col_handle = ''title__en'', col_type = ''text''\<rparr> [],
                AddColumn twinDesc \<lparr>col_handle = ''title__en'', col_type = ''int''\<rparr> []]) = 2"
    by (simp add: twinDesc_def)
  from a b c d show ?thesis by (intro conjI)
qed

text \<open>
  Claim C9, amended. For a declared collection that exists, the column-level diffs of one
  handle all have the same action, so a handle that is dropped is neither altered nor
  added and a handle that is altered is not added; and when the live column names are
  distinct and the column handles of the expansion are distinct, a handle has at most one
  column-level diff. Declared collections have distinct handles.
\<close>

theorem getSchemaDiff_column_diffs_exclusive:
  assumes run: "getSchemaDiff ev context schemas = Inr diffs"
    and dist: "distinct (map s_handle schemas)" and mem: "schema \<in> set schemas"
    and ex: "collectionExists (database context) (s_handle schema) = Inr True"
    and de: "describeCollection (database context) (s_handle schema) = Inr desc"
    and db: "databaseDescriptionToSchemaDescription ev context desc = Inr dbSchemaDesc"
  shows "(\<forall>d1 d2 h. d1 \<in> set diffs \<and> d2 \<in> set diffs
            \<and> sd_handle (diff_collection d1) = s_handle schema
            \<and> sd_handle (diff_collection d2) = s_handle schema
            \<and> columnDiffHandle d1 = Some h \<and> columnDiffHandle d2 = Some h
            \<longrightarrow> action d1 = action d2)
       \<and> (distinct (map col_handle (sd_columns dbSchemaDesc))
            \<and> distinct (map col_handle (sd_columns (schemaToSchemaDescription context schema)))
            \<longrightarrow> (\<forall>h. length (filter (\<lambda>d. sd_handle (diff_collection d) = s_handle schema
                                        \<and> columnDiffHandle d = Some h) diffs) \<le> 1))"
proof -
  let ?sd = "schemaToSchemaDescription context schema"
  let ?piece = "concat (map (liveColumnDiffs (database context) ?sd) (sd_columns dbSchemaDesc))
                @ addColumnDiffs ?sd dbSchemaDesc @ indexDiffs ?sd dbSchemaDesc"
  have piece: "filter (\<lambda>d. sd_handle (diff_collection d) = s_handle schema) diffs = ?piece"
    using getSchemaDiff_piece[OF run dist mem] schemaDiffs_existing[OF ex de db] by simp
  have inpiece: "\<And>d. d \<in> set diffs \<Longrightarrow> sd_handle (diff_collection d) = s_handle schema
                   \<Longrightarrow> d \<in> set ?piece"
  proof -
    fix d assume "d \<in> set diffs" "sd_handle (diff_collection d) = s_handle schema"
    then have "d \<in> set (filter (\<lambda>d. sd_handle (diff_collection d) = s_handle schema) diffs)"
      by simp
    then show "d \<in> set ?piece" by (simp only: piece)
  qed
  have first: "\<forall>d1 d2 h. d1 \<in> set diffs \<and> d2 \<in> set diffs
            \<and> sd_handle (diff_collection d1) = s_handle schema
            \<and> sd_handle (diff_collection d2) = s_handle schema
            \<and> columnDiffHandle d1 = Some h \<and> columnDiffHandle d2 = Some h
            \<longrightarrow> action d1 = action d2"
  proof (intro allI impI)
    fix d1 d2 h
    assume a: "d1 \<in> set diffs \<and> d2 \<in> set diffs
            \<and> sd_handle (diff_collection d1) = s_handle schema
            \<and> sd_handle (diff_collection d2) = s_handle schema
            \<and> columnDiffHandle d1 = Some h \<and> columnDiffHandle d2 = Some h"
    then have p1: "d1 \<in> set ?piece" and p2: "d2 \<in> set ?piece"
      using inpiece[of d1] inpiece[of d2] by blast+
    from a have h1: "columnDiffHandle d1 = Some h" and h2: "columnDiffHandle d2 = Some h"
      by blast+
    have "action d1 = columnAction ?sd dbSchemaDesc h"
      "action d2 = columnAction ?sd dbSchemaDesc h"
      by (rule existing_column_action[OF p1 h1], rule existing_column_action[OF p2 h2])
    then show "action d1 = action d2" by simp
  qed
  have second: "distinct (map col_handle (sd_columns dbSchemaDesc))
            \<and> distinct (map col_handle (sd_columns ?sd))
            \<longrightarrow> (\<forall>h. length (filter (\<lambda>d. sd_handle (diff_collection d) = s_handle schema
                                        \<and> columnDiffHandle d = Some h) diffs) \<le> 1)"
  proof (intro impI allI)
    fix h
    assume dd: "distinct (map col_handle (sd_columns dbSchemaDesc))
            \<and> distinct (map col_handle (sd_columns ?sd))"
    have eq: "filter (\<lambda>d. sd_handle (diff_collection d) = s_handle schema
                        \<and> columnDiffHandle d = Some h) diffs
              = filter (\<lambda>d. columnDiffHandle d = Some h) ?piece"
      by (rule filter_conj_piece[OF piece])
    show "length (filter (\<lambda>d. sd_handle (diff_collection d) = s_handle schema
                        \<and> columnDiffHandle d = Some h) diffs) \<le> 1"
    proof (cases "h \<in> set (map col_handle (sd_columns dbSchemaDesc))")
      case True
      from liveColumns_le1[of "sd_columns dbSchemaDesc" h "database context" ?sd] dd
      show ?thesis
        by (simp add: eq filter_handle_addColumnDiffs_live[OF True] filter_handle_indexDiffs)
    next
      case False
      from addColumnDiffs_le1[of ?sd h dbSchemaDesc] dd
      show ?thesis
        by (simp add: eq filter_handle_liveColumns_absent[OF False] filter_handle_indexDiffs)
    qed
  qed
  from first second show ?thesis by (rule conjI)
qed

theorem getSchemaDiff_column_diffs_exclusive_witness:
  "action (AddColumn twinDesc \<lparr>col_handle = ''title__en'', col_type = ''text''\<rparr> [])
     = action (AddColumn twinDesc \<lparr>col_handle = ''title__en'', col_type = ''int''\<rparr> [])
   \<and> filter (\<lambda>d. sd_handle (diff_collection d) = ''Post''
                  \<and> columnDiffHandle d = Some ''legacy'' \<and> action d \<noteq> ''drop_column'') demoDiffs = []
   \<and> filter (\<lambda>d. sd_handle (diff_collection d) = ''Post''
                  \<and> columnDiffHandle d = Some ''views'' \<and> action d \<noteq> ''alter_column'') demoDiffs = []
   \<and> length (filter (\<lambda>d. sd_handle (diff_collection d) = ''Post''
                          \<and> columnDiffHandle d = Some ''legacy'') demoDiffs) \<le> 1
   \<and> length (filter (\<lambda>d. sd_handle (diff_collection d) = ''Post''
                          \<and> columnDiffHandle d = Some ''views'') demoDiffs) \<le> 1
   \<and> length (filter (\<lambda>d. sd_handle (diff_collection d) = ''Post''
                          \<and> columnDiffHandle d = Some ''summary'') demoDiffs) \<le> 1"
proof -
  let ?t1 = "AddColumn twinDesc \<lparr>col_handle = ''title__en'', col_type = ''text''\<rparr> []"
  let ?t2 = "AddColumn twinDesc \<lparr>col_handle = ''title__en'', col_type = ''int''\<rparr> []"
  let ?drop = "DropColumn demoPostDesc \<lparr>col_handle = ''legacy'', col_type = ''int''\<rparr>"
  let ?alter = "AlterColumn demoPostDesc \<lparr>col_handle = ''views'', col_type = ''text''\<rparr> ''int''"
  have hT: "s_handle twinSchema = ''Post''" by (simp add: twinSchema_def)
  have hP: "s_handle demoPost = ''Post''" by (simp add: demoPost_def)
  have memT: "twinSchema \<in> set [twinSchema]" by simp
  have distT: "distinct (map s_handle [twinSchema])" by simp
  note twin = getSchemaDiff_column_diffs_exclusive[OF twin_getSchemaDiff distT memT
      twin_exists twin_describe twin_live]
  have t: "?t1 \<in> set twinDiffs \<and> ?t2 \<in> set twinDiffs
           \<and> sd_handle (diff_collection ?t1) = s_handle twinSchema
           \<and> sd_handle (diff_collection ?t2) = s_handle twinSchema
           \<and> columnDiffHandle ?t1 = Some ''title__en'' \<and> columnDiffHandle ?t2 = Some ''title__en''"
    by (simp add: twinDiffs_def twinDesc_def hT)
  from twin have "\<forall>d1 d2 h. d1 \<in> set twinDiffs \<and> d2 \<in> set twinDiffs
            \<and> sd_handle (diff_collection d1) = s_handle twinSchema
            \<and> sd_handle (diff_collection d2) = s_handle twinSchema
            \<and> columnDiffHandle d1 = Some h \<and> columnDiffHandle d2 = Some h
            \<longrightarrow> action d1 = action d2" by (rule conjunct1)
  then have "?t1 \<in> set twinDiffs \<and> ?t2 \<in> set twinDiffs
            \<and> sd_handle (diff_collection ?t1) = s_handle twinSchema
            \<and> sd_handle (diff_collection ?t2) = s_handle twinSchema
            \<and> columnDiffHandle ?t1 = Some ''title__en'' \<and> columnDiffHandle ?t2 = Some ''title__en''
            \<longrightarrow> action ?t1 = action ?t2" by (elim allE)
  with t have first: "action ?t1 = action ?t2" by (rule rev_mp)
  have d1: "distinct (map col_handle (sd_columns demoLiveDesc))"
    by (simp add: demoLiveDesc_def)
  have d2: "distinct (map col_handle (sd_columns (schemaToSchemaDescription demoContext demoPost)))"
    by (simp add: demo_expand_Post demoPostDesc_def)
  have mem: "demoPost \<in> set [demoPost, demoTag]" by simp
  note inst = getSchemaDiff_column_diffs_exclusive[OF demo_getSchemaDiff demo_distinct mem
      demo_exists_Post demo_describe demo_live]
  from inst have same: "\<forall>d1 d2 h. d1 \<in> set demoDiffs \<and> d2 \<in> set demoDiffs
            \<and> sd_handle (diff_collection d1) = ''Post''
            \<and> sd_handle (diff_collection d2) = ''Post''
            \<and> columnDiffHandle d1 = Some h \<and> columnDiffHandle d2 = Some h
            \<longrightarrow> action d1 = action d2"
    unfolding hP by (rule conjunct1)
  have dm: "?drop \<in> set demoDiffs" "sd_handle (diff_collection ?drop) = ''Post''"
    "columnDiffHandle ?drop = Some ''legacy''" "action ?drop = ''drop_column''"
    by (simp_all add: demoDiffs_def demoPostDesc_def)
  have am: "?alter \<in> set demoDiffs" "sd_handle (diff_collection ?alter) = ''Post''"
    "columnDiffHandle ?alter = Some ''views''" "action ?alter = ''alter_column''"
    by (simp_all add: demoDiffs_def demoPostDesc_def)
  have dropped: "filter (\<lambda>d. sd_handle (diff_collection d) = ''Post''
                  \<and> columnDiffHandle d = Some ''legacy'' \<and> action d \<noteq> ''drop_column'') demoDiffs = []"
  proof -
    have "\<And>d. d \<in> set demoDiffs \<Longrightarrow> sd_handle (diff_collection d) = ''Post''
            \<Longrightarrow> columnDiffHandle d = Some ''legacy'' \<Longrightarrow> action d = ''drop_column''"
    proof -
      fix d assume "d \<in> set demoDiffs" "sd_handle (diff_collection d) = ''Post''"
        "columnDiffHandle d = Some ''legacy''"
      with same dm(1,2,3) have "action d = action ?drop" by blast
      with dm(4) show "action d = ''drop_column''" by simp
    qed
    then show ?thesis unfolding filter_empty_conv by blast
  qed
  have altered: "filter (\<lambda>d. sd_handle (diff_collection d) = ''Post''
                  \<and> columnDiffHandle d = Some ''views'' \<and> action d \<noteq> ''alter_column'') demoDiffs = []"
  proof -
    have "\<And>d. d \<in> set demoDiffs \<Longrightarrow> sd_handle (diff_collection d) = ''Post''
            \<Longrightarrow> columnDiffHandle d = Some ''views'' \<Longrightarrow> action d = ''alter_column''"
    proof -
      fix d assume "d \<in> set demoDiffs" "sd_handle (diff_collection d) = ''Post''"
        "columnDiffHandle d = Some ''views''"
      with same am(1,2,3) have "action d = action ?alter" by blast
      with am(4) show "action d = ''alter_column''" by simp
    qed
    then show ?thesis unfolding filter_empty_conv by blast
  qed
  from inst have le: "\<forall>h. length (filter (\<lambda>d. sd_handle (diff_collection d) = ''Post''
                                        \<and> columnDiffHandle d = Some h) demoDiffs) \<le> 1"
    using d1 d2 by (simp only: hP) blast
  from first dropped altered le show ?thesis by (intro conjI) simp_all
qed

section \<open>Claims about the expansion\<close>




section \<open>Claims about the migration executor\<close>

text \<open>
  Claim C8. When \<^verbatim>\<open>executeSchemaMigration\<close> reaches its dispatch, the queries are the
  \<^verbatim>\<open>CreateCollection\<close> queries followed by the \<^verbatim>\<open>AlterCollection\<close> queries; there
  is exactly one \<^verbatim>\<open>CreateCollection\<close> per \<^verbatim>\<open>add_collection\<close> diff, built from its
  description, in order; the \<^verbatim>\<open>AlterCollection\<close> queries have distinct collection
  handles, which are the handles that the other diffs target; and each holds, in order,
  one sub-operation of the same kind and name for every \<^verbatim>\<open>add_column\<close>,
  \<^verbatim>\<open>alter_column\<close>, \<^verbatim>\<open>drop_column\<close>, \<^verbatim>\<open>add_index\<close> and \<^verbatim>\<open>drop_index\<close> diff
  of its collection.
\<close>

theorem executeSchemaMigration_grouping:
  assumes "executeSchemaMigration promptSelection context diffs stdin stdout = run"
    and "thrown run = None"
  shows "executed run = map CreateCollection (createQueries (executed run))
                        @ map AlterCollection (alterQueries (executed run))
       \<and> mapE createCollectionOf (map diff_collection (filter isAddCollection diffs))
         = Inr (createQueries (executed run))
       \<and> length (createQueries (executed run)) = length (filter isAddCollection diffs)
       \<and> distinct (map aq_collection (alterQueries (executed run)))
       \<and> set (map aq_collection (alterQueries (executed run)))
         = set (map diffHandle (filter (\<lambda>d. \<not> isAddCollection d) diffs))
       \<and> (\<forall>a\<in>set (alterQueries (executed run)).
             map changeTag (aq_changes a)
             = map diffTag (filter (\<lambda>d. \<not> isAddCollection d \<and> diffHandle d = aq_collection a)
                                   diffs))"
proof -
  from assms obtain st where
    loop: "reduceE (migrationStep promptSelection stdin stdout) initialState diffs = Inr st"
    by (auto simp: executeSchemaMigration_def sortDiffs_id split: sum.splits)
  have "altersInv (alterCollections st) ([] @ diffs)
        \<and> mapE createCollectionOf (map diff_collection (filter isAddCollection ([] @ diffs)))
          = Inr (createCollections st)"
    by (rule migration_loop_inv[OF loop altersInv_initial]) (simp add: initialState_def)
  then have inv: "altersInv (alterCollections st) diffs"
    and cr: "mapE createCollectionOf (map diff_collection (filter isAddCollection diffs))
             = Inr (createCollections st)"
    by simp_all
  have ex: "executed run
            = map CreateCollection (createCollections st)
              @ map AlterCollection (map_values (alterCollections st))"
    using loop assms(1) by (auto simp: executeSchemaMigration_def sortDiffs_id)
  have cq: "createQueries (executed run) = createCollections st"
    by (simp only: ex createQueries_split)
  have aq: "alterQueries (executed run) = map_values (alterCollections st)"
    by (simp only: ex alterQueries_split)
  have len: "length (createCollections st) = length (filter isAddCollection diffs)"
    using mapE_length[OF cr] by simp
  have di: "distinct (map aq_collection (map_values (alterCollections st)))"
    using inv by (simp add: altersInv_collections[OF inv] altersInv_def)
  have ks: "set (map aq_collection (map_values (alterCollections st)))
            = set (map diffHandle (filter (\<lambda>d. \<not> isAddCollection d) diffs))"
    using inv by (simp add: altersInv_collections[OF inv] altersInv_def)
  have ch: "\<forall>a\<in>set (map_values (alterCollections st)).
               map changeTag (aq_changes a)
               = map diffTag (filter (\<lambda>d. \<not> isAddCollection d \<and> diffHandle d = aq_collection a)
                                     diffs)"
    using altersInv_values[OF inv] by blast
  from ex cr len di ks ch show ?thesis
    unfolding cq aq by blast
qed

theorem executeSchemaMigration_grouping_witness:
  "mapE createCollectionOf [demoTagDesc] = Inr (createQueries (executed demoRun))
   \<and> length (createQueries (executed demoRun)) = 1
   \<and> distinct (map aq_collection (alterQueries (executed demoRun)))
   \<and> set (map aq_collection (alterQueries (executed demoRun))) = {''Post''}
   \<and> map changeTag (aq_changes (hd (alterQueries (executed demoRun))))
     = [(''alter_column'', ''views''), (''drop_column'', ''legacy''),
        (''add_column'', ''title__fr''), (''add_column'', ''summary''),
        (''drop_index'', ''Post_pk''), (''add_index'', ''Post_title__en''),
        (''add_index'', ''Post_title__fr''), (''add_index'', ''Post_views'')]"
proof -
  have t: "thrown demoRun = None" by (simp add: demoRun_def)
  have f0: "filter isAddCollection demoDiffs = [AddCollection demoTagDesc]"
    by (simp add: demoDiffs_def isAddCollection_def)
  have f2: "set (map diffHandle (filter (\<lambda>d. \<not> isAddCollection d) demoDiffs)) = {''Post''}"
    by (simp add: demoDiffs_def isAddCollection_def diffHandle_def demoPostDesc_def)
  have f3: "map diffTag (filter (\<lambda>d. \<not> isAddCollection d \<and> diffHandle d = ''Post'') demoDiffs)
     = [(''alter_column'', ''views''), (''drop_column'', ''legacy''),
        (''add_column'', ''title__fr''), (''add_column'', ''summary''),
        (''drop_index'', ''Post_pk''), (''add_index'', ''Post_title__en''),
        (''add_index'', ''Post_title__fr''), (''add_index'', ''Post_views'')]"
    by (simp add: demoDiffs_def isAddCollection_def diffHandle_def demoPostDesc_def diffTag_def)
  have a1: "hd (alterQueries (executed demoRun)) \<in> set (alterQueries (executed demoRun))"
    by (simp add: demoRun_def)
  have a2: "aq_collection (hd (alterQueries (executed demoRun))) = ''Post''"
    by (simp add: demoRun_def)
  note inst = executeSchemaMigration_grouping[OF demo_run t]
  from inst have c1: "mapE createCollectionOf [demoTagDesc] = Inr (createQueries (executed demoRun))"
    by (simp add: f0)
  from inst have c2: "length (createQueries (executed demoRun)) = 1"
    by (simp add: f0)
  from inst have c3: "distinct (map aq_collection (alterQueries (executed demoRun)))"
    by blast
  from inst have c4: "set (map aq_collection (alterQueries (executed demoRun))) = {''Post''}"
    unfolding f2 by blast
  from inst have "\<forall>a\<in>set (alterQueries (executed demoRun)).
             map changeTag (aq_changes a)
             = map diffTag (filter (\<lambda>d. \<not> isAddCollection d \<and> diffHandle d = aq_collection a)
                                   demoDiffs)"
    by blast
  from bspec[OF this a1] have c5: "map changeTag (aq_changes (hd (alterQueries (executed demoRun))))
     = [(''alter_column'', ''views''), (''drop_column'', ''legacy''),
        (''add_column'', ''title__fr''), (''add_column'', ''summary''),
        (''drop_index'', ''Post_pk''), (''add_index'', ''Post_title__en''),
        (''add_index'', ''Post_title__fr''), (''add_index'', ''Post_views'')]"
    unfolding a2 f3 .
  from c1 c2 c3 c4 c5 show ?thesis by (intro conjI)
qed

text \<open>
  Claim C4. When the diffs before a diff that raises a prompt have been processed without
  error and the collaborator answers that prompt with the abort key, or the prompt fails,
  \<^verbatim>\<open>executeSchemaMigration\<close> throws the migration-aborted error and no query is
  executed; and in every run, queries are executed only when the loop over all diffs has
  completed.
\<close>

theorem executeSchemaMigration_abort:
  assumes pre: "reduceE (migrationStep promptSelection (Some i) (Some out)) initialState before
                = Inr st"
    and pr: "promptOf d = Some p"
    and ans: "promptSelection i out (asked st) (fst p) (snd p) = None
              \<or> promptSelection i out (asked st) (fst p) (snd p) = Some ''abort''"
  shows "executeSchemaMigration promptSelection context (before @ d # after) (Some i) (Some out)
           = \<lparr>thrown = Some UserAborted, executed = []\<rparr>
       \<and> (\<forall>diffs stdin stdout.
             executed (executeSchemaMigration promptSelection context diffs stdin stdout) \<noteq> []
             \<longrightarrow> (\<exists>st'. reduceE (migrationStep promptSelection stdin stdout) initialState diffs
                          = Inr st'))"
proof -
  have "reduceE (migrationStep promptSelection (Some i) (Some out)) initialState
          (before @ d # after) = Inl UserAborted"
    using step_abort[of d p promptSelection i out st, OF pr ans]
    by (simp add: reduceE_append pre)
  from run_thrown[OF this] run_executed_loop show ?thesis by blast
qed

theorem executeSchemaMigration_abort_witness:
  "executeSchemaMigration demoRefuser demoContext demoDiffs (Some Stdin) (Some Stdout)
   = \<lparr>thrown = Some UserAborted, executed = []\<rparr>"
proof -
  let ?before = "[AlterColumn demoPostDesc \<lparr>col_handle = ''views'', col_type = ''text''\<rparr> ''int'',
                  DropColumn demoPostDesc \<lparr>col_handle = ''legacy'', col_type = ''int''\<rparr>]"
  let ?d = "AddColumn demoPostDesc \<lparr>col_handle = ''title__fr'', col_type = ''text''\<rparr> [''title__en'']"
  let ?after = "drop 3 demoDiffs"
  let ?p = "addColumnPrompt ''Post'' ''Post.title__fr'' [''title__en'']"
  have split: "demoDiffs = ?before @ ?d # ?after" by (simp add: demoDiffs_def)
  have pre: "reduceE (migrationStep demoRefuser (Some Stdin) (Some Stdout)) initialState ?before
             = Inr demoAbortState"
    by code_simp
  have pr: "promptOf ?d = Some ?p" by (simp add: demoPostDesc_def)
  have ans: "demoRefuser Stdin Stdout (asked demoAbortState) (fst ?p) (snd ?p) = None
             \<or> demoRefuser Stdin Stdout (asked demoAbortState) (fst ?p) (snd ?p) = Some ''abort''"
    by (simp add: demoRefuser_def demoAbortState_def)
  from executeSchemaMigration_abort[of demoRefuser Stdin Stdout ?before demoAbortState ?d ?p demoContext ?after, OF pre pr ans]
  show ?thesis by (simp only: split[symmetric])
qed

text \<open>
  Claim C10. Without both streams, a \<^verbatim>\<open>drop_column\<close> diff, or an \<^verbatim>\<open>add_column\<close>
  diff with copy candidates, anywhere in the list makes \<^verbatim>\<open>executeSchemaMigration\<close>
  throw with no query executed; the collaborator is never consulted, since the run is the
  same under any other collaborator; and an \<^verbatim>\<open>add_column\<close> diff without copy
  candidates raises no prompt and adds the column with no copy source.
\<close>

theorem executeSchemaMigration_without_tty:
  assumes "stdin = None \<or> stdout = None"
  shows "((\<exists>d\<in>set diffs. promptOf d \<noteq> None) \<longrightarrow>
            thrown (executeSchemaMigration promptSelection context diffs stdin stdout) \<noteq> None
          \<and> executed (executeSchemaMigration promptSelection context diffs stdin stdout) = [])
       \<and> executeSchemaMigration promptSelection context diffs stdin stdout
         = executeSchemaMigration anyone context diffs stdin stdout
       \<and> promptOf (AddColumn collection column []) = None
       \<and> executeSchemaMigration promptSelection context [AddColumn collection column []] stdin stdout
         = (case mapStringToColumnType (col_type column) of
              Inl e \<Rightarrow> \<lparr>thrown = Some e, executed = []\<rparr>
            | Inr t \<Rightarrow>
                \<lparr>thrown = None,
                 executed = [AlterCollection
                    \<lparr>aq_collection = sd_handle collection,
                     aq_changes = [ChangeAddColumn (q_column (col_handle column) t) None]\<rparr>]\<rparr>)"
proof -
  have a: "(\<exists>d\<in>set diffs. promptOf d \<noteq> None) \<longrightarrow>
            thrown (executeSchemaMigration promptSelection context diffs stdin stdout) \<noteq> None
          \<and> executed (executeSchemaMigration promptSelection context diffs stdin stdout) = []"
  proof
    assume "\<exists>d\<in>set diffs. promptOf d \<noteq> None"
    then obtain d where "d \<in> set diffs" "promptOf d \<noteq> None" by blast
    from loop_needs_tty[OF this assms, of promptSelection initialState]
    obtain e where "reduceE (migrationStep promptSelection stdin stdout) initialState diffs = Inl e"
      by blast
    from run_thrown[OF this] show
      "thrown (executeSchemaMigration promptSelection context diffs stdin stdout) \<noteq> None
       \<and> executed (executeSchemaMigration promptSelection context diffs stdin stdout) = []"
      by simp
  qed
  have "migrationStep promptSelection stdin stdout = migrationStep anyone stdin stdout"
    by (intro ext) (rule step_no_tty_collaborator[OF assms])
  then have b: "executeSchemaMigration promptSelection context diffs stdin stdout
         = executeSchemaMigration anyone context diffs stdin stdout"
    by (simp add: executeSchemaMigration_def)
  have c: "executeSchemaMigration promptSelection context [AddColumn collection column []] stdin stdout
         = (case mapStringToColumnType (col_type column) of
              Inl e \<Rightarrow> \<lparr>thrown = Some e, executed = []\<rparr>
            | Inr t \<Rightarrow>
                \<lparr>thrown = None,
                 executed = [AlterCollection
                    \<lparr>aq_collection = sd_handle collection,
                     aq_changes = [ChangeAddColumn (q_column (col_handle column) t) None]\<rparr>]\<rparr>)"
    by (simp add: executeSchemaMigration_def sortDiffs_id muteNewColumn_def Let_def
        addColumnChoice_def initialState_def ensureAlter_def q_alterCollection_def addChange_def
        map_values_def split: sum.splits)
  from a b c show ?thesis by simp
qed

theorem executeSchemaMigration_without_tty_witness:
  "thrown (executeSchemaMigration demoOperator demoContext demoDiffs None None) \<noteq> None
   \<and> executed (executeSchemaMigration demoOperator demoContext demoDiffs None None) = []
   \<and> executeSchemaMigration demoOperator demoContext demoDiffs None None
     = executeSchemaMigration demoRefuser demoContext demoDiffs None None
   \<and> executeSchemaMigration demoOperator demoContext
        [AddColumn demoTagDesc \<lparr>col_handle = ''label'', col_type = ''text''\<rparr> []] None None
     = \<lparr>thrown = None,
        executed = [AlterCollection
           \<lparr>aq_collection = ''Tag'',
            aq_changes = [ChangeAddColumn (q_column ''label'' Text) None]\<rparr>]\<rparr>"
proof -
  have n: "(None :: ReadStream option) = None \<or> (None :: WriteStream option) = None" by simp
  have m: "\<exists>d\<in>set demoDiffs. promptOf d \<noteq> None"
    by (simp add: demoDiffs_def)
  have t: "mapStringToColumnType ''text'' = Inr Text"
    by (simp add: mapStringToColumnType_def)
  have h: "sd_handle demoTagDesc = ''Tag''" by (simp add: demoTagDesc_def)
  note inst = executeSchemaMigration_without_tty[OF n, of demoDiffs demoOperator demoContext demoRefuser demoTagDesc
      "\<lparr>col_handle = ''label'', col_type = ''text''\<rparr>"]
  from inst m have c1:
    "thrown (executeSchemaMigration demoOperator demoContext demoDiffs None None) \<noteq> None
     \<and> executed (executeSchemaMigration demoOperator demoContext demoDiffs None None) = []"
    by blast
  from inst have c2: "executeSchemaMigration demoOperator demoContext demoDiffs None None
     = executeSchemaMigration demoRefuser demoContext demoDiffs None None"
    by blast
  from inst have "executeSchemaMigration demoOperator demoContext
        [AddColumn demoTagDesc \<lparr>col_handle = ''label'', col_type = ''text''\<rparr> []] None None
     = (case mapStringToColumnType (col_type \<lparr>col_handle = ''label'', col_type = ''text''\<rparr>) of
              Inl e \<Rightarrow> \<lparr>thrown = Some e, executed = []\<rparr>
            | Inr t \<Rightarrow>
                \<lparr>thrown = None,
                 executed = [AlterCollection
                    \<lparr>aq_collection = sd_handle demoTagDesc,
                     aq_changes = [ChangeAddColumn
                        (q_column (col_handle \<lparr>col_handle = ''label'', col_type = ''text''\<rparr>) t)
                        None]\<rparr>]\<rparr>)"
    by blast
  then have c3: "executeSchemaMigration demoOperator demoContext
        [AddColumn demoTagDesc \<lparr>col_handle = ''label'', col_type = ''text''\<rparr> []] None None
     = \<lparr>thrown = None,
        executed = [AlterCollection
           \<lparr>aq_collection = ''Tag'',
            aq_changes = [ChangeAddColumn (q_column ''label'' Text) None]\<rparr>]\<rparr>"
    by (simp add: t h)
  from c1 c2 c3 show ?thesis by (intro conjI) blast+
qed

text \<open>
  Claim C2. The claim states the order add-column, alter-column, drop-column, add-index,
  drop-index for the sub-operations of every \<^verbatim>\<open>AlterCollection\<close> query. The comparator
  of the sort is constant, so the diffs keep the order in which the diff engine emitted
  them, and on the diffs of the worked example the query for \<^verbatim>\<open>Post\<close> alters and
  drops columns before it adds any, and drops an index before it adds one: its
  sub-operations are not in the stated order.
\<close>

theorem executeSchemaMigration_order_of_example:
  "getSchemaDiff mapIndexTypeToString demoContext [demoPost, demoTag] = Inr demoDiffs
   \<and> map (fst \<circ> changeTag)
        (aq_changes (hd (alterQueries (executed
           (executeSchemaMigration demoOperator demoContext demoDiffs (Some Stdin) (Some Stdout))))))
     = [''alter_column'', ''drop_column'', ''add_column'', ''add_column'',
        ''drop_index'', ''add_index'', ''add_index'', ''add_index'']
   \<and> \<not> sorted (map changeRank
        (aq_changes (hd (alterQueries (executed
           (executeSchemaMigration demoOperator demoContext demoDiffs (Some Stdin) (Some Stdout)))))))"
  unfolding demo_run
  by (simp add: demo_getSchemaDiff demoRun_def changeRank_def)

section \<open>Claims about collapsing\<close>

text \<open>
  Claim C3, as stated, fails: for the schema with the single localized field
  \<^verbatim>\<open>title\<close> and the locales en and fr, collapsing a live description that equals the
  expansion gives the expansion back, with the two columns \<^verbatim>\<open>title__en\<close> and
  \<^verbatim>\<open>title__fr\<close>, not the logical description with the single column \<^verbatim>\<open>title\<close>.
\<close>

theorem collapse_not_logical_counterexample:
  "liveEquals titleLive (schemaToSchemaDescription titleContext titleSchema)
   \<and> databaseDescriptionToSchemaDescription mapIndexTypeToString titleContext titleLive
     = Inr titleExpanded
   \<and> map col_handle (sd_columns titleExpanded) = [''title__en'', ''title__fr'']
   \<and> map col_handle (sd_columns (logicalDescription titleSchema)) = [''title'']
   \<and> titleExpanded \<noteq> logicalDescription titleSchema"
proof -
  have a: "liveEquals titleLive (schemaToSchemaDescription titleContext titleSchema)"
    by code_simp
  have d: "databaseDescriptionToSchemaDescription mapIndexTypeToString titleContext titleLive
     = Inr titleExpanded" by code_simp
  have e: "map col_handle (sd_columns titleExpanded) = [''title__en'', ''title__fr'']"
    by (simp add: titleExpanded_def)
  have f: "map col_handle (sd_columns (logicalDescription titleSchema)) = [''title'']"
    by (simp add: logicalDescription_def titleSchema_def)
  from e f have g: "titleExpanded \<noteq> logicalDescription titleSchema" by auto
  from a d e f g show ?thesis by (intro conjI)
qed

text \<open>
  Claim C3, amended. For every schema, collapsing a live description that equals the
  expansion of the schema succeeds and reproduces the expansion, not the logical
  description: the collection handle, one column for every column that the specification
  gives the expansion, under its locale-suffixed handle and in order, with the type string
  that its backend type maps back to, and the index handles with their locale suffixes.
  Only the field references inside the column set of an index are collapsed: when the
  schema is ready to collapse, every index copy has the column set of its logical index.
\<close>

theorem collapse_keeps_expansion:
  assumes "liveEquals live (schemaToSchemaDescription context schema)"
  shows "\<exists>collapsed.
           databaseDescriptionToSchemaDescription ev context live = Inr collapsed
         \<and> sd_handle collapsed = s_handle schema
         \<and> sd_columns collapsed
           = map (\<lambda>c. \<lparr>col_handle = col_handle c, col_type = canonicalType (col_type c)\<rparr>)
                 (concat (map (expandField_spec (locales context)) (s_fields schema)))
         \<and> map idx_handle (sd_indexes collapsed)
           = concat (map (expandedIndexHandles (locales context) schema) (s_indexes schema))
         \<and> (collapseReady context schema \<longrightarrow>
              map idx_columns (sd_indexes collapsed)
              = concat (map (logicalIndexColumns (locales context) schema) (s_indexes schema)))"
proof -
  let ?sd = "schemaToSchemaDescription context schema"
  from assms have i: "list_all2 (\<lambda>q i. ix_name q = idx_handle i
                             \<and> mapStringToIndexType (idx_type i) = Inr (ix_type q)
                             \<and> map (\<lambda>s. (sf_name s, directionOrAsc (sf_direction s))) (ix_columns q)
                               = idx_columns i) (d_indexes live) (sd_indexes ?sd)"
    by (simp add: liveEquals_def)
  from collapse_live[OF assms, of ev] collapse_indexes[OF i, of ev "[]"]
    collapse_all_index_columns[of "context" schema]
  show ?thesis
    by (simp add: sd_columns_expansion sd_index_handles_expansion)
qed

theorem collapse_keeps_expansion_witness:
  "liveEquals demoPostLive (schemaToSchemaDescription demoContext demoPost)
   \<and> collapseReady demoContext demoPost
   \<and> (\<exists>collapsed.
         databaseDescriptionToSchemaDescription mapIndexTypeToString demoContext demoPostLive
           = Inr collapsed
       \<and> sd_handle collapsed = ''Post''
       \<and> sd_columns collapsed
         = [\<lparr>col_handle = ''title__en'', col_type = ''text''\<rparr>,
            \<lparr>col_handle = ''title__fr'', col_type = ''text''\<rparr>,
            \<lparr>col_handle = ''views'', col_type = ''int''\<rparr>,
            \<lparr>col_handle = ''summary'', col_type = ''text''\<rparr>]
       \<and> map idx_handle (sd_indexes collapsed)
         = [''Post_title__en'', ''Post_title__fr'', ''Post_views'']
       \<and> map idx_columns (sd_indexes collapsed)
         = [[(''title'', Asc), (''views'', Desc)], [(''title'', Asc), (''views'', Desc)],
            [(''views'', Desc)]])"
proof -
  have e: "liveEquals demoPostLive (schemaToSchemaDescription demoContext demoPost)"
    by code_simp
  have r: "collapseReady demoContext demoPost" by code_simp
  have h: "s_handle demoPost = ''Post''" by (simp add: demoPost_def)
  have k: "map (\<lambda>c. \<lparr>col_handle = col_handle c, col_type = canonicalType (col_type c)\<rparr>)
             (concat (map (expandField_spec (locales demoContext)) (s_fields demoPost)))
           = [\<lparr>col_handle = ''title__en'', col_type = ''text''\<rparr>,
              \<lparr>col_handle = ''title__fr'', col_type = ''text''\<rparr>,
              \<lparr>col_handle = ''views'', col_type = ''int''\<rparr>,
              \<lparr>col_handle = ''summary'', col_type = ''text''\<rparr>]"
    by code_simp
  have i: "concat (map (expandedIndexHandles (locales demoContext) demoPost) (s_indexes demoPost))
           = [''Post_title__en'', ''Post_title__fr'', ''Post_views'']"
    by code_simp
  have l: "concat (map (logicalIndexColumns (locales demoContext) demoPost) (s_indexes demoPost))
           = [[(''title'', Asc), (''views'', Desc)], [(''title'', Asc), (''views'', Desc)],
              [(''views'', Desc)]]"
    by code_simp
  from collapse_keeps_expansion[OF e, of mapIndexTypeToString] r
  have "\<exists>collapsed.
         databaseDescriptionToSchemaDescription mapIndexTypeToString demoContext demoPostLive
           = Inr collapsed
       \<and> sd_handle collapsed = ''Post''
       \<and> sd_columns collapsed
         = [\<lparr>col_handle = ''title__en'', col_type = ''text''\<rparr>,
            \<lparr>col_handle = ''title__fr'', col_type = ''text''\<rparr>,
            \<lparr>col_handle = ''views'', col_type = ''int''\<rparr>,
            \<lparr>col_handle = ''summary'', col_type = ''text''\<rparr>]
       \<and> map idx_handle (sd_indexes collapsed)
         = [''Post_title__en'', ''Post_title__fr'', ''Post_views'']
       \<and> map idx_columns (sd_indexes collapsed)
         = [[(''title'', Asc), (''views'', Desc)], [(''title'', Asc), (''views'', Desc)],
            [(''views'', Desc)]]"
    unfolding h k i l by simp
  with e r show ?thesis by (intro conjI)
qed

end
